theory Spec2Isabelle
  imports Complex_Main
begin

section \<open>Characters and strings\<close>

text \<open>
  A text is a list of characters. A \<^typ>\<open>char\<close> has eight bits and is read as the
  code point of the same number, so the texts of this development are the Python strings
  over U+0000 .. U+00FF. The character tables below are those of Python's \<open>str\<close> and
  \<open>re\<close> (Unicode mode) on that range.
\<close>

definition code :: "char \<Rightarrow> nat" where
  "code c = of_char c"

text \<open>A character below U+0080 has its top bit clear.\<close>

definition is_ascii :: "char \<Rightarrow> bool" where
  "is_ascii c = (\<not> digit7 c)"

definition upper_letters :: string where
  "upper_letters = ''ABCDEFGHIJKLMNOPQRSTUVWXYZ''"

definition lower_letters :: string where
  "lower_letters = ''abcdefghijklmnopqrstuvwxyz''"

definition is_AZ :: "char \<Rightarrow> bool" where
  "is_AZ c = (c \<in> set upper_letters)"

definition is_az :: "char \<Rightarrow> bool" where
  "is_az c = (c \<in> set lower_letters)"

text \<open>\<open>\d\<close>: the decimal digits; on this range only \<open>0\<close> .. \<open>9\<close>.\<close>

definition is_digit :: "char \<Rightarrow> bool" where
  "is_digit c = (c \<in> set ''0123456789'')"

text \<open>
  \<open>\s\<close>: tab, line feed, vertical tab, form feed, carriage return, the separators
  U+001C .. U+001F, space, U+0085 and U+00A0.
\<close>

definition is_space :: "char \<Rightarrow> bool" where
  "is_space c =
     (c = CHR '' '' \<or> (9 \<le> code c \<and> code c \<le> 13) \<or> (28 \<le> code c \<and> code c \<le> 31)
      \<or> code c = 133 \<or> code c = 160)"

text \<open>
  \<open>\w\<close>: letters, characters with a numeric value, and the underscore. Beyond ASCII
  these are U+00AA, U+00B2, U+00B3, U+00B5, U+00B9, U+00BA, U+00BC .. U+00BE and the
  letters U+00C0 .. U+00FF without the signs U+00D7 and U+00F7.
\<close>

definition is_word :: "char \<Rightarrow> bool" where
  "is_word c =
     (if is_ascii c then is_az c \<or> is_AZ c \<or> is_digit c \<or> c = CHR ''_''
      else code c \<in> {170, 178, 179, 181, 185, 186, 188, 189, 190}
           \<or> (192 \<le> code c \<and> code c \<noteq> 215 \<and> code c \<noteq> 247))"

text \<open>
  \<open>str.lower\<close>, one character: \<open>A\<close> .. \<open>Z\<close> and the capital letters
  U+00C0 .. U+00DE (without the sign U+00D7) move up by 32.
\<close>

definition lower_char :: "char \<Rightarrow> char" where
  "lower_char c =
     (if is_ascii c
      then (case map_of (zip upper_letters lower_letters) c of Some l \<Rightarrow> l | None \<Rightarrow> c)
      else if 192 \<le> code c \<and> code c \<le> 222 \<and> code c \<noteq> 215 then char_of (code c + 32)
      else c)"

definition lower :: "string \<Rightarrow> string" where
  "lower s = map lower_char s"

text \<open>
  \<open>str.upper\<close>, one character, for the letters whose capital is below U+0100. It is
  used by \<open>capitalize\<close> only, which the program applies to day names.
\<close>

definition upper_char :: "char \<Rightarrow> char" where
  "upper_char c =
     (if is_ascii c
      then (case map_of (zip lower_letters upper_letters) c of Some u \<Rightarrow> u | None \<Rightarrow> c)
      else if 224 \<le> code c \<and> code c \<le> 254 \<and> code c \<noteq> 247 then char_of (code c - 32)
      else c)"

fun capitalize :: "string \<Rightarrow> string" where
  "capitalize [] = []"
| "capitalize (c # cs) = upper_char c # lower cs"

text \<open>\<open>s.rstrip('s')\<close>: drop every trailing \<open>s\<close>.\<close>

definition rstrip_s :: "string \<Rightarrow> string" where
  "rstrip_s s = rev (dropWhile (\<lambda>c. c = CHR ''s'') (rev s))"

text \<open>\<open>text.startswith(k)\<close> and \<open>k in text\<close> (substring containment).\<close>

fun startswith :: "string \<Rightarrow> string \<Rightarrow> bool" where
  "startswith text [] = True"
| "startswith [] (k # ks) = False"
| "startswith (c # cs) (k # ks) = (c = k \<and> startswith cs ks)"

fun str_in :: "string \<Rightarrow> string \<Rightarrow> bool" where
  "str_in k [] = (k = [])"
| "str_in k (c # cs) = (startswith (c # cs) k \<or> str_in k cs)"

section \<open>The classifier\<close>

definition temporal_keywords :: "string list" where
  "temporal_keywords =
     [''monday'', ''tuesday'', ''wednesday'', ''thursday'', ''friday'', ''saturday'', ''sunday'',
      ''time'', ''hour'', ''am'', ''pm'', ''morning'', ''afternoon'', ''evening'', ''night'',
      ''before'', ''after'', ''during'', ''date'', ''week'', ''month'', ''day'']"

definition capacity_keywords :: "string list" where
  "capacity_keywords =
     [''maximum'', ''minimum'', ''limit'', ''capacity'', ''more than'', ''less than'',
      ''no more'', ''at least'', ''per day'', ''per week'', ''games'', ''matches'']"

definition location_keywords :: "string list" where
  "location_keywords =
     [''field'', ''venue'', ''location'', ''home'', ''away'', ''court'', ''stadium'',
      ''ground'', ''facility'', ''site'', ''place'']"

definition rest_keywords :: "string list" where
  "rest_keywords =
     [''rest'', ''break'', ''between'', ''gap'', ''interval'', ''recovery'',
      ''days between'', ''hours between'', ''time between'']"

definition preference_keywords :: "string list" where
  "preference_keywords =
     [''prefer'', ''like'', ''want'', ''wish'', ''would like'', ''ideally'',
      ''better'', ''favor'', ''rather'']"

text \<open>\<open>sum(1 for keyword in keywords if keyword in text)\<close>\<close>

definition kw_score :: "string list \<Rightarrow> string \<Rightarrow> nat" where
  "kw_score keywords text = length (filter (\<lambda>keyword. str_in keyword text) keywords)"

text \<open>
  \<open>max(scores.values())\<close> and \<open>max(scores, key=scores.get)\<close>: Python's \<open>max\<close>
  starts from the first item and replaces the item it holds only by a strictly greater
  one. The dictionary \<open>scores\<close> is a literal with five keys; \<open>max\<close> visits them in
  insertion order, so it starts from the entry of \<open>temporal\<close>.
\<close>

fun max_value :: "nat \<Rightarrow> (string \<times> nat) list \<Rightarrow> nat" where
  "max_value best [] = best"
| "max_value best (kv # kvs) =
     (if best < snd kv then max_value (snd kv) kvs else max_value best kvs)"

fun max_key :: "string \<times> nat \<Rightarrow> (string \<times> nat) list \<Rightarrow> string" where
  "max_key best [] = fst best"
| "max_key best (kv # kvs) =
     (if snd best < snd kv then max_key kv kvs else max_key best kvs)"

definition scores_first :: "string \<Rightarrow> string \<times> nat" where
  "scores_first text = (''temporal'', kw_score temporal_keywords text)"

definition scores_others :: "string \<Rightarrow> (string \<times> nat) list" where
  "scores_others text =
     [(''capacity'', kw_score capacity_keywords text),
      (''location'', kw_score location_keywords text),
      (''rest'', kw_score rest_keywords text),
      (''preference'', kw_score preference_keywords text)]"

definition classify_constraint_type :: "string \<Rightarrow> string" where
  "classify_constraint_type text =
     (if max_value (snd (scores_first text)) (scores_others text) = 0 then ''unknown''
      else max_key (scores_first text) (scores_others text))"

section \<open>Regular expressions\<close>

text \<open>
  The fragment of Python's \<open>re\<close> that the program's patterns use: literal characters,
  the classes \<open>\d\<close>, \<open>\w\<close>, \<open>\s\<close> and \<open>[A-Z]\<close>, greedy repetition of a class
  (\<open>*\<close>, \<open>+\<close>, \<open>{m,n}\<close>), the greedy option \<open>r?\<close>, sequence, alternation, one
  capturing group and the word boundary \<open>\b\<close>.
\<close>

datatype cclass = Digit | WordChar | Space | UpperRange

datatype rx =
    Lit string
  | Cls cclass
  | Rep cclass nat "nat option"
  | Opt rx
  | Seq rx rx
  | Alt rx rx
  | Grp rx
  | WordB

text \<open>The flag \<open>ic\<close> is \<open>re.IGNORECASE\<close>.\<close>

fun in_class :: "bool \<Rightarrow> cclass \<Rightarrow> char \<Rightarrow> bool" where
  "in_class ic Digit c = is_digit c"
| "in_class ic WordChar c = is_word c"
| "in_class ic Space c = is_space c"
| "in_class ic UpperRange c = (is_AZ c \<or> (ic \<and> is_az c))"

definition chr_eq :: "bool \<Rightarrow> char \<Rightarrow> char \<Rightarrow> bool" where
  "chr_eq ic p c = (if ic then lower_char p = lower_char c else p = c)"

text \<open>
  A matcher state: the text before the position (latest character first), the text from
  the position on, and what group 1 has captured.
\<close>

type_synonym mstate = "string \<times> string \<times> string option"

fun lit_match :: "bool \<Rightarrow> string \<Rightarrow> string \<Rightarrow> string \<Rightarrow> (string \<times> string) option" where
  "lit_match ic [] b a = Some (b, a)"
| "lit_match ic (p # ps) b [] = None"
| "lit_match ic (p # ps) b (c # cs) =
     (if chr_eq ic p c then lit_match ic ps (c # b) cs else None)"

definition at_boundary :: "string \<Rightarrow> string \<Rightarrow> bool" where
  "at_boundary b a =
     ((case b of [] \<Rightarrow> False | c # _ \<Rightarrow> is_word c) \<noteq> (case a of [] \<Rightarrow> False | c # _ \<Rightarrow> is_word c))"

text \<open>
  \<open>rx_run ic r st\<close> lists the states in which \<open>r\<close> can end when started in \<open>st\<close>,
  in the order in which the backtracking matcher tries them: the left alternative before
  the right one, the longer repetition before the shorter one.
\<close>

fun rx_run :: "bool \<Rightarrow> rx \<Rightarrow> mstate \<Rightarrow> mstate list" where
  "rx_run ic (Lit s) (b, a, g) =
     (case lit_match ic s b a of None \<Rightarrow> [] | Some (b', a') \<Rightarrow> [(b', a', g)])"
| "rx_run ic (Cls k) (b, a, g) =
     (case a of [] \<Rightarrow> [] | c # cs \<Rightarrow> if in_class ic k c then [(c # b, cs, g)] else [])"
| "rx_run ic (Rep k lo hi) (b, a, g) =
     (let avail = length (takeWhile (in_class ic k) a);
          n = (case hi of None \<Rightarrow> avail | Some h \<Rightarrow> min avail h)
      in if n < lo then []
         else map (\<lambda>m. (rev (take m a) @ b, drop m a, g)) (rev [lo..<Suc n]))"
| "rx_run ic (Opt r) st = rx_run ic r st @ [st]"
| "rx_run ic (Seq r1 r2) st = concat (map (rx_run ic r2) (rx_run ic r1 st))"
| "rx_run ic (Alt r1 r2) st = rx_run ic r1 st @ rx_run ic r2 st"
| "rx_run ic (Grp r) (b, a, g) =
     map (\<lambda>(b', a', g'). (b', a', Some (take (length a - length a') a))) (rx_run ic r (b, a, g))"
| "rx_run ic WordB (b, a, g) = (if at_boundary b a then [(b, a, g)] else [])"

text \<open>A match object: \<open>group()\<close> and \<open>group(1)\<close>.\<close>

datatype rmatch = Match (group0: string) (group1: "string option")

fun to_match :: "string \<Rightarrow> mstate \<Rightarrow> rmatch" where
  "to_match a (b', a', g) = Match (take (length a - length a') a) g"

text \<open>The first way to match at a position; and the first way that consumes a character.\<close>

definition match_at :: "bool \<Rightarrow> rx \<Rightarrow> string \<Rightarrow> string \<Rightarrow> rmatch option" where
  "match_at ic r b a =
     (case rx_run ic r (b, a, None) of [] \<Rightarrow> None | st # _ \<Rightarrow> Some (to_match a st))"

definition match_adv_at :: "bool \<Rightarrow> rx \<Rightarrow> string \<Rightarrow> string \<Rightarrow> rmatch option" where
  "match_adv_at ic r b a =
     (case filter (\<lambda>(b', a', g). length a' < length a) (rx_run ic r (b, a, None)) of
        [] \<Rightarrow> None | st # _ \<Rightarrow> Some (to_match a st))"

text \<open>\<open>re.search\<close>: the first match at the leftmost position that has one.\<close>

fun search_from :: "bool \<Rightarrow> rx \<Rightarrow> string \<Rightarrow> string \<Rightarrow> rmatch option" where
  "search_from ic r b [] = match_at ic r b []"
| "search_from ic r b (c # cs) =
     (case match_at ic r b (c # cs) of
        Some m \<Rightarrow> Some m
      | None \<Rightarrow> search_from ic r (c # b) cs)"

definition re_search :: "bool \<Rightarrow> rx \<Rightarrow> string \<Rightarrow> rmatch option" where
  "re_search ic r text = search_from ic r [] text"

text \<open>
  \<open>re.finditer\<close>: the matches from left to right, each search starting where the last
  match ended. \<open>skip\<close> counts the characters of the last match still to pass. After an
  empty match the matcher looks at the same position for a match that advances.
\<close>

fun finditer_from :: "bool \<Rightarrow> rx \<Rightarrow> string \<Rightarrow> string \<Rightarrow> nat \<Rightarrow> rmatch list" where
  "finditer_from ic r b [] skip =
     (if 0 < skip then []
      else case match_at ic r b [] of None \<Rightarrow> [] | Some m \<Rightarrow> [m])"
| "finditer_from ic r b (c # cs) skip =
     (if 0 < skip then finditer_from ic r (c # b) cs (skip - 1)
      else case match_at ic r b (c # cs) of
        None \<Rightarrow> finditer_from ic r (c # b) cs 0
      | Some m \<Rightarrow>
          if 0 < length (group0 m)
          then m # finditer_from ic r (c # b) cs (length (group0 m) - 1)
          else (case match_adv_at ic r b (c # cs) of
                  None \<Rightarrow> m # finditer_from ic r (c # b) cs 0
                | Some m' \<Rightarrow> m # m' # finditer_from ic r (c # b) cs (length (group0 m') - 1)))"

definition re_finditer :: "bool \<Rightarrow> rx \<Rightarrow> string \<Rightarrow> rmatch list" where
  "re_finditer ic r text = finditer_from ic r [] text 0"

text \<open>Writing patterns: a sequence, an alternation, \<open>+\<close> and \<open>*\<close> on a class.\<close>

fun seqs :: "rx \<Rightarrow> rx list \<Rightarrow> rx" where
  "seqs r [] = r"
| "seqs r (x # xs) = Seq r (seqs x xs)"

fun alts :: "rx \<Rightarrow> rx list \<Rightarrow> rx" where
  "alts r [] = r"
| "alts r (x # xs) = Alt r (alts x xs)"

definition plus :: "cclass \<Rightarrow> rx" where
  "plus k = Rep k 1 None"

definition star :: "cclass \<Rightarrow> rx" where
  "star k = Rep k 0 None"

section \<open>The patterns of the program\<close>

text \<open>\<^verbatim>\<open>\b(Team\s+[A-Z]\w*|[A-Z]\w+\s+Team|[A-Z]\w+s)\b\<close>\<close>

definition team_pattern :: rx where
  "team_pattern =
     seqs WordB
       [Grp (alts (seqs (Lit ''Team'') [plus Space, Cls UpperRange, star WordChar])
               [seqs (Cls UpperRange) [plus WordChar, plus Space, Lit ''Team''],
                seqs (Cls UpperRange) [plus WordChar, Lit ''s'']]),
        WordB]"

text \<open>\<^verbatim>\<open>\b(Monday|Tuesday|Wednesday|Thursday|Friday|Saturday|Sunday|Mondays|Tuesdays|Wednesdays|Thursdays|Fridays|Saturdays|Sundays)\b\<close>\<close>

definition days_pattern :: rx where
  "days_pattern =
     seqs WordB
       [Grp (alts (Lit ''Monday'')
               [Lit ''Tuesday'', Lit ''Wednesday'', Lit ''Thursday'', Lit ''Friday'',
                Lit ''Saturday'', Lit ''Sunday'', Lit ''Mondays'', Lit ''Tuesdays'',
                Lit ''Wednesdays'', Lit ''Thursdays'', Lit ''Fridays'', Lit ''Saturdays'',
                Lit ''Sundays'']),
        WordB]"

text \<open>\<^verbatim>\<open>\b(\d{1,2}:\d{2}\s*(?:AM|PM|am|pm)?|\d{1,2}\s*(?:AM|PM|am|pm))\b\<close>\<close>

definition AM_PM :: rx where
  "AM_PM = alts (Lit ''AM'') [Lit ''PM'', Lit ''am'', Lit ''pm'']"

definition time_pattern :: rx where
  "time_pattern =
     seqs WordB
       [Grp (alts (seqs (Rep Digit 1 (Some 2))
                     [Lit '':'', Rep Digit 2 (Some 2), star Space, Opt AM_PM])
               [seqs (Rep Digit 1 (Some 2)) [star Space, AM_PM]]),
        WordB]"

text \<open>\<^verbatim>\<open>\b(\d+)\b\<close>\<close>

definition number_pattern :: rx where
  "number_pattern = seqs WordB [Grp (plus Digit), WordB]"

text \<open>\<^verbatim>\<open>\b(Field\s+\d+|Court\s+\d+|Stadium|Arena|Gym|Gymnasium)\b\<close>\<close>

definition venue_pattern :: rx where
  "venue_pattern =
     seqs WordB
       [Grp (alts (seqs (Lit ''Field'') [plus Space, plus Digit])
               [seqs (Lit ''Court'') [plus Space, plus Digit],
                Lit ''Stadium'', Lit ''Arena'', Lit ''Gym'', Lit ''Gymnasium'']),
        WordB]"

text \<open>
  \<^verbatim>\<open>before\s+(\d{1,2}:\d{2}\s*(?:am|pm)?|\d{1,2}\s*(?:am|pm))\<close> and the same after
  \<^verbatim>\<open>after\<close>.
\<close>

definition am_pm :: rx where
  "am_pm = Alt (Lit ''am'') (Lit ''pm'')"

definition time_of_day :: rx where
  "time_of_day =
     Grp (Alt (seqs (Rep Digit 1 (Some 2))
                 [Lit '':'', Rep Digit 2 (Some 2), star Space, Opt am_pm])
              (seqs (Rep Digit 1 (Some 2)) [star Space, am_pm]))"

definition before_pattern :: rx where
  "before_pattern = seqs (Lit ''before'') [plus Space, time_of_day]"

definition after_pattern :: rx where
  "after_pattern = seqs (Lit ''after'') [plus Space, time_of_day]"

text \<open>
  \<^verbatim>\<open>no more than (\d+)\<close>, \<^verbatim>\<open>maximum (\d+)\<close>, \<^verbatim>\<open>at most (\d+)\<close>,
  \<^verbatim>\<open>(\d+) or fewer\<close>
\<close>

definition max_patterns :: "rx list" where
  "max_patterns =
     [Seq (Lit ''no more than '') (Grp (plus Digit)),
      Seq (Lit ''maximum '') (Grp (plus Digit)),
      Seq (Lit ''at most '') (Grp (plus Digit)),
      Seq (Grp (plus Digit)) (Lit '' or fewer'')]"

text \<open>\<^verbatim>\<open>at least (\d+)\<close>, \<^verbatim>\<open>minimum (\d+)\<close>, \<^verbatim>\<open>(\d+) or more\<close>\<close>

definition min_patterns :: "rx list" where
  "min_patterns =
     [Seq (Lit ''at least '') (Grp (plus Digit)),
      Seq (Lit ''minimum '') (Grp (plus Digit)),
      Seq (Grp (plus Digit)) (Lit '' or more'')]"

text \<open>\<^verbatim>\<open>(\d+)\s+days?\s+between\<close> and \<^verbatim>\<open>(\d+)\s+hours?\s+between\<close>\<close>

definition day_between_pattern :: rx where
  "day_between_pattern =
     seqs (Grp (plus Digit))
       [plus Space, Lit ''day'', Opt (Lit ''s''), plus Space, Lit ''between'']"

definition hour_between_pattern :: rx where
  "hour_between_pattern =
     seqs (Grp (plus Digit))
       [plus Space, Lit ''hour'', Opt (Lit ''s''), plus Space, Lit ''between'']"

section \<open>Faults\<close>

text \<open>
  The exceptions the parsing code could raise: \<open>int\<close> on a string that is no numeral
  (\<open>ValueError\<close>) or on \<open>None\<close>, the value of a group that took no part in the match
  (\<open>TypeError\<close>), and \<open>.values()\<close> on a value that is no dictionary
  (\<open>AttributeError\<close>).
\<close>

datatype py_error = ValueError | TypeError | AttributeError

text \<open>
  \<open>int(s)\<close> on a run of decimal digits. Integers are unbounded, but CPython refuses to
  convert a string of more than \<open>sys.get_int_max_str_digits()\<close> digits and raises
  \<open>ValueError\<close>; leading zeros count. The limit is a setting of the interpreter, not of
  the program: 4300 by default (since CPython 3.11), and 0 switches the check off; the
  interpreter accepts no other setting below 640. The functions that call \<open>int\<close> take
  it as their first argument \<open>max_str_digits\<close>.
  Python's \<open>int\<close> also accepts a sign, surrounding white space and underscores between
  digits; no such string is ever a digit group, and they are counted as faults here.
\<close>

definition default_max_str_digits :: nat where
  "default_max_str_digits = 4300"

definition digit_value :: "char \<Rightarrow> int" where
  "digit_value c = int (code c) - 48"

definition decimal :: "string \<Rightarrow> int" where
  "decimal s = foldl (\<lambda>acc c. 10 * acc + digit_value c) 0 s"

definition py_int :: "nat \<Rightarrow> string \<Rightarrow> py_error + int" where
  "py_int max_str_digits s =
     (if s \<noteq> [] \<and> list_all is_digit s
      then (if 0 < max_str_digits \<and> max_str_digits < length s then Inl ValueError
            else Inr (decimal s))
      else Inl ValueError)"

text \<open>\<open>int(match.group(1))\<close>\<close>

definition int_group1 :: "nat \<Rightarrow> rmatch \<Rightarrow> py_error + int" where
  "int_group1 max_str_digits m =
     (case group1 m of None \<Rightarrow> Inl TypeError | Some s \<Rightarrow> py_int max_str_digits s)"

section \<open>The result\<close>

text \<open>
  The dictionaries of the program have fixed keys and are records here. The value of an
  entity is a string or, for a number, an integer. Each of the five category slots of the
  result starts as the empty dictionary \<open>{}\<close>, which is \<open>None\<close> here, and holds
  \<open>Some\<close> record once a category parser has filled it.
\<close>

datatype py_value = PyStr string | PyInt int

record entity =
  ent_type :: string
  ent_value :: py_value
  ent_confidence :: real

record condition =
  operator :: string
  cond_value :: string

record temporal_fields =
  days_of_week :: "string list"
  excluded_dates :: "string list"
  time_ranges :: "string list"
  before_time :: "string option"
  after_time :: "string option"

record capacity_fields =
  max_count :: "int option"
  min_count :: "int option"
  per_period :: "string option"
  resource :: "string option"

record location_fields =
  required_venue :: "string option"
  excluded_venues :: "string list"
  home_away_preference :: "string option"

record rest_fields =
  min_hours :: "int option"
  min_days :: "int option"
  between_events :: bool

record preference_fields =
  preferred_times :: "string list"
  preferred_days :: "string list"
  weight :: real

record parse_result =
  res_type :: string
  entities :: "entity list"
  conditions :: "condition list"
  confidence :: real
  temporal :: "temporal_fields option"
  capacity :: "capacity_fields option"
  location :: "location_fields option"
  preference :: "preference_fields option"
  rest :: "rest_fields option"

section \<open>Entity extraction\<close>

definition team_entity :: "rmatch \<Rightarrow> entity" where
  "team_entity m = \<lparr>ent_type = ''team'', ent_value = PyStr (group0 m), ent_confidence = 0.8\<rparr>"

definition day_entity :: "rmatch \<Rightarrow> entity" where
  "day_entity m =
     \<lparr>ent_type = ''day_of_week'', ent_value = PyStr (capitalize (rstrip_s (group0 m))),
      ent_confidence = 0.95\<rparr>"

definition time_entity :: "rmatch \<Rightarrow> entity" where
  "time_entity m = \<lparr>ent_type = ''time'', ent_value = PyStr (group0 m), ent_confidence = 0.9\<rparr>"

definition number_entity :: "int \<Rightarrow> entity" where
  "number_entity n = \<lparr>ent_type = ''number'', ent_value = PyInt n, ent_confidence = 0.85\<rparr>"

definition venue_entity :: "rmatch \<Rightarrow> entity" where
  "venue_entity m = \<lparr>ent_type = ''venue'', ent_value = PyStr (group0 m), ent_confidence = 0.9\<rparr>"

text \<open>
  A loop \<open>for match in re.finditer(...): entities.append(...)\<close>, started with the list
  built so far. The loop over the numbers calls \<open>int\<close> and stops at its first fault.
\<close>

fun append_each :: "(rmatch \<Rightarrow> entity) \<Rightarrow> entity list \<Rightarrow> rmatch list \<Rightarrow> entity list" where
  "append_each f acc [] = acc"
| "append_each f acc (m # ms) = append_each f (acc @ [f m]) ms"

fun append_numbers :: "nat \<Rightarrow> entity list \<Rightarrow> rmatch list \<Rightarrow> py_error + entity list" where
  "append_numbers max_str_digits acc [] = Inr acc"
| "append_numbers max_str_digits acc (m # ms) =
     (case py_int max_str_digits (group0 m) of
        Inl e \<Rightarrow> Inl e
      | Inr n \<Rightarrow> append_numbers max_str_digits (acc @ [number_entity n]) ms)"

definition extract_entities :: "nat \<Rightarrow> string \<Rightarrow> py_error + entity list" where
  "extract_entities max_str_digits text =
     (let entities' = [];
          entities' = append_each team_entity entities' (re_finditer False team_pattern text);
          entities' = append_each day_entity entities' (re_finditer True days_pattern text);
          entities' = append_each time_entity entities' (re_finditer False time_pattern text)
      in case append_numbers max_str_digits entities' (re_finditer False number_pattern text) of
           Inl e \<Rightarrow> Inl e
         | Inr entities' \<Rightarrow>
             Inr (append_each venue_entity entities' (re_finditer True venue_pattern text)))"

section \<open>Category parsers\<close>

definition days :: "string list" where
  "days = [''monday'', ''tuesday'', ''wednesday'', ''thursday'', ''friday'', ''saturday'', ''sunday'']"

text \<open>
  \<open>_parse_temporal_constraint\<close>. \<open>time_match.group(1)\<close> is stored as it is, so the
  parser has no fault of its own.
\<close>

definition add_day :: "string \<Rightarrow> temporal_fields \<Rightarrow> string \<Rightarrow> temporal_fields" where
  "add_day text temporal' day =
     (if str_in day text \<or> str_in (day @ ''s'') text
      then temporal'\<lparr>days_of_week := days_of_week temporal' @ [capitalize day]\<rparr>
      else temporal')"

definition parse_temporal_constraint :: "string \<Rightarrow> temporal_fields" where
  "parse_temporal_constraint text =
     (let temporal' = \<lparr>days_of_week = [], excluded_dates = [], time_ranges = [],
                       before_time = None, after_time = None\<rparr>;
          temporal' = foldl (add_day text) temporal' days;
          temporal' =
            (if str_in ''before'' text
             then (case re_search False before_pattern text of
                     None \<Rightarrow> temporal'
                   | Some time_match \<Rightarrow> temporal'\<lparr>before_time := group1 time_match\<rparr>)
             else temporal');
          temporal' =
            (if str_in ''after'' text
             then (case re_search False after_pattern text of
                     None \<Rightarrow> temporal'
                   | Some time_match \<Rightarrow> temporal'\<lparr>after_time := group1 time_match\<rparr>)
             else temporal')
      in temporal')"

text \<open>
  \<open>_parse_capacity_constraint\<close>. A loop \<open>for pattern in patterns\<close> takes the count
  of the first pattern that matches, and leaves \<open>None\<close> when none does.
\<close>

fun first_count :: "nat \<Rightarrow> rx list \<Rightarrow> string \<Rightarrow> py_error + int option" where
  "first_count max_str_digits [] text = Inr None"
| "first_count max_str_digits (pattern # patterns) text =
     (case re_search False pattern text of
        None \<Rightarrow> first_count max_str_digits patterns text
      | Some m \<Rightarrow> (case int_group1 max_str_digits m of Inl e \<Rightarrow> Inl e | Inr n \<Rightarrow> Inr (Some n)))"

definition parse_capacity_constraint :: "nat \<Rightarrow> string \<Rightarrow> py_error + capacity_fields" where
  "parse_capacity_constraint max_str_digits text =
     (case first_count max_str_digits max_patterns text of
        Inl e \<Rightarrow> Inl e
      | Inr mx \<Rightarrow>
          (case first_count max_str_digits min_patterns text of
             Inl e \<Rightarrow> Inl e
           | Inr mn \<Rightarrow>
               Inr \<lparr>max_count = mx, min_count = mn,
                    per_period =
                      (if str_in ''per day'' text then Some ''day''
                       else if str_in ''per week'' text then Some ''week''
                       else if str_in ''per hour'' text then Some ''hour''
                       else None),
                    resource = None\<rparr>))"

definition parse_location_constraint :: "string \<Rightarrow> location_fields" where
  "parse_location_constraint text =
     \<lparr>required_venue = None, excluded_venues = [], home_away_preference = None\<rparr>"

definition parse_rest_constraint :: "nat \<Rightarrow> string \<Rightarrow> py_error + rest_fields" where
  "parse_rest_constraint max_str_digits text =
     (let rest' = \<lparr>min_hours = None, min_days = None, between_events = True\<rparr>
      in case (case re_search False day_between_pattern text of
                 None \<Rightarrow> Inr rest'
               | Some day_match \<Rightarrow>
                   (case int_group1 max_str_digits day_match of
                      Inl e \<Rightarrow> Inl e
                    | Inr n \<Rightarrow> Inr (rest'\<lparr>min_days := Some n\<rparr>))) of
           Inl e \<Rightarrow> Inl e
         | Inr rest' \<Rightarrow>
             (case re_search False hour_between_pattern text of
                None \<Rightarrow> Inr rest'
              | Some hour_match \<Rightarrow>
                  (case int_group1 max_str_digits hour_match of
                     Inl e \<Rightarrow> Inl e
                   | Inr n \<Rightarrow> Inr (rest'\<lparr>min_hours := Some n\<rparr>))))"

definition parse_preference_constraint :: "string \<Rightarrow> preference_fields" where
  "parse_preference_constraint text =
     \<lparr>preferred_times = [], preferred_days = [], weight = 0.5\<rparr>"

section \<open>Condition extractors\<close>

definition cond :: "string \<Rightarrow> string \<Rightarrow> condition" where
  "cond op v = \<lparr>operator = op, cond_value = v\<rparr>"

definition extract_temporal_conditions :: "string \<Rightarrow> condition list" where
  "extract_temporal_conditions text =
     (if str_in ''cannot'' text \<or> str_in ''not'' text
      then [] @ [cond ''not_equals'' ''specified_time'']
      else if str_in ''must'' text \<or> str_in ''only'' text
      then [] @ [cond ''equals'' ''specified_time'']
      else if str_in ''before'' text
      then [] @ [cond ''less_than'' ''specified_time'']
      else if str_in ''after'' text
      then [] @ [cond ''greater_than'' ''specified_time'']
      else [])"

definition extract_capacity_conditions :: "string \<Rightarrow> condition list" where
  "extract_capacity_conditions text =
     (if str_in ''no more than'' text \<or> str_in ''maximum'' text
      then [] @ [cond ''less_than_or_equal'' ''max_count'']
      else if str_in ''at least'' text \<or> str_in ''minimum'' text
      then [] @ [cond ''greater_than_or_equal'' ''min_count'']
      else [])"

definition extract_location_conditions :: "string \<Rightarrow> condition list" where
  "extract_location_conditions text =
     (if str_in ''must'' text \<and> str_in ''home'' text
      then [] @ [cond ''equals'' ''home_venue'']
      else if str_in ''cannot'' text
      then [] @ [cond ''not_equals'' ''specified_venue'']
      else [])"

definition extract_rest_conditions :: "string \<Rightarrow> condition list" where
  "extract_rest_conditions text =
     (if str_in ''at least'' text \<or> str_in ''minimum'' text
      then [] @ [cond ''greater_than_or_equal'' ''min_rest_period'']
      else [])"

definition extract_preference_conditions :: "string \<Rightarrow> condition list" where
  "extract_preference_conditions text =
     (if str_in ''prefer'' text \<or> str_in ''like'' text
      then [] @ [cond ''prefer'' ''specified_option'']
      else [])"

section \<open>The confidence score\<close>

text \<open>
  \<open>any(v is not None and v != [] for v in constraint_data.values())\<close>, for each shape
  of category record. A boolean and a number are neither \<open>None\<close> nor \<open>[]\<close>.
\<close>

definition temporal_any :: "temporal_fields \<Rightarrow> bool" where
  "temporal_any t =
     (\<not> (days_of_week t = [] \<and> excluded_dates t = [] \<and> time_ranges t = []
         \<and> before_time t = None \<and> after_time t = None))"

definition capacity_any :: "capacity_fields \<Rightarrow> bool" where
  "capacity_any c =
     (\<not> (max_count c = None \<and> min_count c = None \<and> per_period c = None \<and> resource c = None))"

definition location_any :: "location_fields \<Rightarrow> bool" where
  "location_any l =
     (\<not> (required_venue l = None \<and> excluded_venues l = [] \<and> home_away_preference l = None))"

definition rest_any :: "rest_fields \<Rightarrow> bool" where
  "rest_any r = (\<not> (min_hours r = None \<and> min_days r = None \<and> False))"

definition preference_any :: "preference_fields \<Rightarrow> bool" where
  "preference_any p = (\<not> (preferred_times p = [] \<and> preferred_days p = [] \<and> False))"

text \<open>
  \<open>constraint_data = parsed_result.get(parsed_result["type"], {})\<close> followed by
  \<open>constraint_data and any(...)\<close>. An empty dictionary, an empty list and \<open>0.0\<close> are
  false and end the test; under the keys \<open>type\<close>, \<open>entities\<close>, \<open>conditions\<close> and
  \<open>confidence\<close> the result holds no dictionary, and \<open>.values()\<close> on a true value of
  them faults. Any other key is absent and gives the empty dictionary.
\<close>

definition data_populated :: "parse_result \<Rightarrow> py_error + bool" where
  "data_populated r =
     (let k = res_type r in
      if k = ''temporal'' then Inr (case temporal r of None \<Rightarrow> False | Some t \<Rightarrow> temporal_any t)
      else if k = ''capacity'' then Inr (case capacity r of None \<Rightarrow> False | Some c \<Rightarrow> capacity_any c)
      else if k = ''location'' then Inr (case location r of None \<Rightarrow> False | Some l \<Rightarrow> location_any l)
      else if k = ''preference'' then Inr (case preference r of None \<Rightarrow> False | Some p \<Rightarrow> preference_any p)
      else if k = ''rest'' then Inr (case rest r of None \<Rightarrow> False | Some x \<Rightarrow> rest_any x)
      else if k = ''type'' then Inl AttributeError
      else if k = ''entities'' then (if entities r = [] then Inr False else Inl AttributeError)
      else if k = ''conditions'' then (if conditions r = [] then Inr False else Inl AttributeError)
      else if k = ''confidence'' then (if confidence r = 0 then Inr False else Inl AttributeError)
      else Inr False)"

text \<open>
  \<open>_calculate_confidence\<close>. The score is a real number here; the program adds binary
  floating-point numbers.
\<close>

definition calculate_confidence :: "string \<Rightarrow> parse_result \<Rightarrow> py_error + real" where
  "calculate_confidence text parsed_result =
     (let score = 0;
          score = (if res_type parsed_result \<noteq> ''unknown'' then score + 0.3 else score);
          entity_count = length (entities parsed_result);
          score = (if 0 < entity_count then score + min 0.3 (real entity_count * 0.1) else score);
          condition_count = length (conditions parsed_result);
          score = (if 0 < condition_count then score + min 0.2 (real condition_count * 0.1)
                   else score)
      in case data_populated parsed_result of
           Inl e \<Rightarrow> Inl e
         | Inr populated \<Rightarrow> Inr (min 1.0 (if populated then score + 0.2 else score)))"

section \<open>The pipeline\<close>

text \<open>The \<open>if\<close>/\<open>elif\<close> chain of \<open>_parse_constraint\<close> on the constraint type.\<close>

definition parse_category :: "nat \<Rightarrow> string \<Rightarrow> string \<Rightarrow> parse_result \<Rightarrow> py_error + parse_result" where
  "parse_category max_str_digits constraint_type text_lower result =
     (if constraint_type = ''temporal''
      then Inr (result\<lparr>temporal := Some (parse_temporal_constraint text_lower),
                       conditions := extract_temporal_conditions text_lower\<rparr>)
      else if constraint_type = ''capacity''
      then (case parse_capacity_constraint max_str_digits text_lower of
              Inl e \<Rightarrow> Inl e
            | Inr c \<Rightarrow> Inr (result\<lparr>capacity := Some c,
                                   conditions := extract_capacity_conditions text_lower\<rparr>))
      else if constraint_type = ''location''
      then Inr (result\<lparr>location := Some (parse_location_constraint text_lower),
                       conditions := extract_location_conditions text_lower\<rparr>)
      else if constraint_type = ''rest''
      then (case parse_rest_constraint max_str_digits text_lower of
              Inl e \<Rightarrow> Inl e
            | Inr x \<Rightarrow> Inr (result\<lparr>rest := Some x,
                                   conditions := extract_rest_conditions text_lower\<rparr>))
      else if constraint_type = ''preference''
      then Inr (result\<lparr>preference := Some (parse_preference_constraint text_lower),
                       conditions := extract_preference_conditions text_lower\<rparr>)
      else Inr result)"

definition initial_result :: parse_result where
  "initial_result =
     \<lparr>res_type = ''unknown'', entities = [], conditions = [], confidence = 0.0,
      temporal = None, capacity = None, location = None, preference = None, rest = None\<rparr>"

definition parse_constraint :: "nat \<Rightarrow> string \<Rightarrow> py_error + parse_result" where
  "parse_constraint max_str_digits text =
     (let text_lower = lower text;
          result = initial_result;
          constraint_type = classify_constraint_type text_lower;
          result = result\<lparr>res_type := constraint_type\<rparr>
      in case extract_entities max_str_digits text of
           Inl e \<Rightarrow> Inl e
         | Inr entities' \<Rightarrow>
             (case parse_category max_str_digits constraint_type text_lower (result\<lparr>entities := entities'\<rparr>) of
                Inl e \<Rightarrow> Inl e
              | Inr result \<Rightarrow>
                  (case calculate_confidence text result of
                     Inl e \<Rightarrow> Inl e
                   | Inr c \<Rightarrow> Inr (result\<lparr>confidence := c\<rparr>))))"

section \<open>Notions used in the statements\<close>

text \<open>
  The five scans of the entity extractor, each taken on its own and put one after the
  other: teams, days of the week, times, numbers, venues.
\<close>

definition scan_entities :: "string \<Rightarrow> entity list" where
  "scan_entities text =
     map team_entity (re_finditer False team_pattern text)
     @ map day_entity (re_finditer True days_pattern text)
     @ map time_entity (re_finditer False time_pattern text)
     @ map (\<lambda>m. number_entity (decimal (group0 m))) (re_finditer False number_pattern text)
     @ map venue_entity (re_finditer True venue_pattern text)"

text \<open>A non-empty run of decimal digits.\<close>

definition digits :: "string \<Rightarrow> bool" where
  "digits s = (s \<noteq> [] \<and> list_all is_digit s)"

text \<open>
  Two syntactic properties of a pattern: it has no capturing group; every match of it
  leaves a \<^verbatim>\<open>(\d+)\<close> in group 1.
\<close>

fun nogrp :: "rx \<Rightarrow> bool" where
  "nogrp (Grp r) = False"
| "nogrp (Opt r) = nogrp r"
| "nogrp (Seq r1 r2) = (nogrp r1 \<and> nogrp r2)"
| "nogrp (Alt r1 r2) = (nogrp r1 \<and> nogrp r2)"
| "nogrp r = True"

fun digit_group :: "rx \<Rightarrow> bool" where
  "digit_group (Grp r) = (r = Rep Digit 1 None)"
| "digit_group (Seq r1 r2) = ((digit_group r1 \<and> nogrp r2) \<or> digit_group r2)"
| "digit_group (Alt r1 r2) = (digit_group r1 \<and> digit_group r2)"
| "digit_group r = False"

text \<open>The six category values.\<close>

definition category_names :: "string list" where
  "category_names = [''temporal'', ''capacity'', ''location'', ''rest'', ''preference'', ''unknown'']"

text \<open>The sum of the four terms of the score, before the final \<open>min\<close>.\<close>

definition score_sum :: "bool \<Rightarrow> nat \<Rightarrow> nat \<Rightarrow> bool \<Rightarrow> real" where
  "score_sum classified entity_count condition_count populated =
     (if classified then 0.3 else 0)
     + min 0.3 (0.1 * real entity_count)
     + min 0.2 (0.1 * real condition_count)
     + (if populated then 0.2 else 0)"


definition operators :: "string list" where
  "operators = [''equals'', ''not_equals'', ''less_than'', ''greater_than'',
      ''less_than_or_equal'', ''greater_than_or_equal'', ''prefer'']"


definition condition_ok :: "condition \<Rightarrow> bool" where
  "condition_ok c = (operator c \<in> set operators)"


text \<open>
  The category record of the matched type has a field that is neither \<open>None\<close> nor
  an empty sequence.
\<close>

definition slot_populated :: "parse_result \<Rightarrow> bool" where
  "slot_populated r =
     ((res_type r = ''temporal'' \<and> (case temporal r of None \<Rightarrow> False | Some t \<Rightarrow> temporal_any t))
      \<or> (res_type r = ''capacity'' \<and> (case capacity r of None \<Rightarrow> False | Some c \<Rightarrow> capacity_any c))
      \<or> (res_type r = ''location'' \<and> (case location r of None \<Rightarrow> False | Some l \<Rightarrow> location_any l))
      \<or> (res_type r = ''rest'' \<and> (case rest r of None \<Rightarrow> False | Some x \<Rightarrow> rest_any x))
      \<or> (res_type r = ''preference'' \<and> (case preference r of None \<Rightarrow> False | Some p \<Rightarrow> preference_any p)))"

text \<open>
  The length of the longest run of decimal digits of a text; \<open>cur\<close> is the length of
  the run that ends at the position reached. A text is within the limit of \<open>int\<close> when
  the limit is switched off or no run of digits of the text is longer than it.
\<close>

fun run_max :: "nat \<Rightarrow> string \<Rightarrow> nat" where
  "run_max cur [] = cur"
| "run_max cur (c # cs) =
     (if is_digit c then run_max (Suc cur) cs else max cur (run_max 0 cs))"

definition longest_digit_run :: "string \<Rightarrow> nat" where
  "longest_digit_run text = run_max 0 text"

definition within_limit :: "nat \<Rightarrow> string \<Rightarrow> bool" where
  "within_limit max_str_digits text = (max_str_digits = 0 \<or> longest_digit_run text \<le> max_str_digits)"

text \<open>
  A part of a text stands alone between \<open>pre\<close> and \<open>post\<close> when no word character
  (a letter, a digit or the underscore) touches it: \<open>pre\<close> does not end with one and
  \<open>post\<close> does not begin with one.
\<close>

definition stands_alone :: "string \<Rightarrow> string \<Rightarrow> bool" where
  "stands_alone pre post =
     ((pre = [] \<or> \<not> is_word (last pre)) \<and> (post = [] \<or> \<not> is_word (hd post)))"

section \<open>Notions used in the proofs\<close>

text \<open>
  \<open>matches_in ic r text m\<close>: \<open>m\<close> is a match of \<open>r\<close> at some position of \<open>text\<close>.
\<close>

definition matches_in :: "bool \<Rightarrow> rx \<Rightarrow> string \<Rightarrow> rmatch \<Rightarrow> bool" where
  "matches_in ic r text m =
     (\<exists>b a st. rev b @ a = text \<and> st \<in> set (rx_run ic r (b, a, None)) \<and> m = to_match a st)"

text \<open>No match of the pattern consumes the character \<open>c\<close>.\<close>

fun avoids :: "bool \<Rightarrow> rx \<Rightarrow> char \<Rightarrow> bool" where
  "avoids ic (Lit s) c = list_all (\<lambda>p. \<not> chr_eq ic p c) s"
| "avoids ic (Cls k) c = (\<not> in_class ic k c)"
| "avoids ic (Rep k lo hi) c = (\<not> in_class ic k c)"
| "avoids ic (Opt r) c = avoids ic r c"
| "avoids ic (Seq r1 r2) c = (avoids ic r1 c \<and> avoids ic r2 c)"
| "avoids ic (Alt r1 r2) c = (avoids ic r1 c \<and> avoids ic r2 c)"
| "avoids ic (Grp r) c = avoids ic r c"
| "avoids ic WordB c = True"

text \<open>
  No match that starts inside \<open>pre\<close> runs beyond it: the scan of \<open>pre @ post\<close> then
  comes to the start of \<open>post\<close> with nothing left to pass.
\<close>

definition stays_within :: "bool \<Rightarrow> rx \<Rightarrow> string \<Rightarrow> string \<Rightarrow> string \<Rightarrow> bool" where
  "stays_within ic r b pre post =
     (\<forall>p1 p2 b' a' g'. pre = p1 @ p2 \<and> p2 \<noteq> []
        \<and> (b', a', g') \<in> set (rx_run ic r (rev p1 @ b, p2 @ post, None))
        \<longrightarrow> length post \<le> length a' \<and> length a' \<le> length (p2 @ post))"

text \<open>
  A triple for the matcher: started on a text that satisfies \<open>P\<close>, the pattern leaves
  only texts that satisfy \<open>Q\<close>.
\<close>

definition leaves :: "bool \<Rightarrow> rx \<Rightarrow> (string \<Rightarrow> bool) \<Rightarrow> (string \<Rightarrow> bool) \<Rightarrow> bool" where
  "leaves ic r P Q =
     (\<forall>b a g b' a' g'. P a \<and> (b', a', g') \<in> set (rx_run ic r (b, a, g)) \<longrightarrow> Q a')"

definition ends_with :: "string \<Rightarrow> string \<Rightarrow> bool" where
  "ends_with T a = (\<exists>q. a = q @ T)"

text \<open>\<^verbatim>\<open>\d{1,2}\<close> and \<^verbatim>\<open>\d{2}\<close>\<close>

definition digits12 :: rx where
  "digits12 = Rep Digit 1 (Some 2)"

definition digits22 :: rx where
  "digits22 = Rep Digit 2 (Some 2)"

section \<open>What the matcher returns\<close>

lemma rx_run_nogrp:
  "nogrp r \<Longrightarrow> (b', a', g') \<in> set (rx_run ic r (b, a, g)) \<Longrightarrow> g' = g"
proof (induction r arbitrary: b a g b' a' g')
  case (Seq r1 r2)
  from Seq.prems obtain st where st: "st \<in> set (rx_run ic r1 (b, a, g))"
    and fin: "(b', a', g') \<in> set (rx_run ic r2 st)"
    by auto
  obtain b1 a1 g1 where [simp]: "st = (b1, a1, g1)" by (cases st)
  from Seq.IH(1)[of b1 a1 g1 b a g] st Seq.prems(1) have "g1 = g" by simp
  moreover from Seq.IH(2)[of b' a' g' b1 a1 g1] fin Seq.prems(1) have "g' = g1" by simp
  ultimately show ?case by simp
qed (auto split: option.splits list.splits if_splits simp: Let_def)

lemma take_takeWhile_all:
  "m \<le> length (takeWhile P xs) \<Longrightarrow> list_all P (take m xs)"
proof (induction xs arbitrary: m)
  case Nil
  then show ?case by simp
next
  case (Cons x xs)
  then show ?case by (cases m) (auto split: if_splits)
qed

lemma in_class_Digit: "in_class ic Digit = is_digit"
  by (rule ext) simp

lemma rx_run_digit_grp:
  assumes "(b', a', g') \<in> set (rx_run ic (Grp (Rep Digit 1 None)) (b, a, g))"
  shows "\<exists>d. g' = Some d \<and> digits d"
proof -
  let ?n = "length (takeWhile is_digit a)"
  from assms obtain m where m: "1 \<le> m" "m \<le> ?n" and g': "g' = Some (take (length a - length (drop m a)) a)"
    by (auto simp: Let_def in_class_Digit split: if_splits)
  have le: "?n \<le> length a" by (rule length_takeWhile_le)
  with m have eq: "take (length a - length (drop m a)) a = take m a" by simp
  have "list_all is_digit (take m a)" using m(2) by (rule take_takeWhile_all)
  moreover have "take m a \<noteq> []" using m le by auto
  ultimately show ?thesis using g' eq by (simp add: digits_def)
qed

lemma rx_run_digit_group:
  "digit_group r \<Longrightarrow> (b', a', g') \<in> set (rx_run ic r (b, a, g)) \<Longrightarrow> \<exists>d. g' = Some d \<and> digits d"
proof (induction r arbitrary: b a g b' a' g')
  case (Seq r1 r2)
  from Seq.prems obtain st where st: "st \<in> set (rx_run ic r1 (b, a, g))"
    and fin: "(b', a', g') \<in> set (rx_run ic r2 st)"
    by auto
  obtain b1 a1 g1 where [simp]: "st = (b1, a1, g1)" by (cases st)
  show ?case
  proof (cases "digit_group r2")
    case True
    with Seq.IH(2)[of b' a' g' b1 a1 g1] fin show ?thesis by simp
  next
    case False
    with Seq.prems(1) have d1: "digit_group r1" and n2: "nogrp r2" by auto
    from rx_run_nogrp[OF n2, of b' a' g' ic b1 a1 g1] fin have "g' = g1" by simp
    with Seq.IH(1)[OF d1, of b1 a1 g1 b a g] st show ?thesis by simp
  qed
next
  case (Grp r)
  then show ?case using rx_run_digit_grp by simp
next
  case (Alt r1 r2)
  then show ?case by auto
qed simp_all


lemma match_at_in_run:
  "match_at ic r b a = Some m \<Longrightarrow> \<exists>st \<in> set (rx_run ic r (b, a, None)). m = to_match a st"
  by (auto simp: match_at_def split: list.splits)

lemma match_adv_at_in_run:
  "match_adv_at ic r b a = Some m \<Longrightarrow> \<exists>st \<in> set (rx_run ic r (b, a, None)). m = to_match a st"
proof -
  assume h: "match_adv_at ic r b a = Some m"
  then obtain st sts where
    f: "filter (\<lambda>(b', a', g). length a' < length a) (rx_run ic r (b, a, None)) = st # sts"
    and m: "m = to_match a st"
    by (auto simp: match_adv_at_def split: list.splits)
  have "st \<in> set (filter (\<lambda>(b', a', g). length a' < length a) (rx_run ic r (b, a, None)))"
    unfolding f by simp
  then show ?thesis using m by auto
qed

lemma search_from_in_run:
  "search_from ic r b a = Some m \<Longrightarrow>
     \<exists>b' a' st. st \<in> set (rx_run ic r (b', a', None)) \<and> m = to_match a' st"
proof (induction a arbitrary: b)
  case Nil
  then show ?case using match_at_in_run by fastforce
next
  case (Cons c cs)
  show ?case
  proof (cases "match_at ic r b (c # cs)")
    case None
    with Cons.prems have "search_from ic r (c # b) cs = Some m" by simp
    then show ?thesis by (rule Cons.IH)
  next
    case (Some m')
    with Cons.prems have "m' = m" by simp
    with Some show ?thesis using match_at_in_run by fastforce
  qed
qed

lemma finditer_from_in_run:
  "m \<in> set (finditer_from ic r b a k) \<Longrightarrow>
     \<exists>b' a' st. st \<in> set (rx_run ic r (b', a', None)) \<and> m = to_match a' st"
proof (induction a arbitrary: b k)
  case Nil
  then have "match_at ic r b [] = Some m"
    by (auto split: if_splits option.splits)
  then show ?case using match_at_in_run by fastforce
next
  case (Cons c cs)
  show ?case
  proof (cases "0 < k")
    case True
    with Cons.prems have "m \<in> set (finditer_from ic r (c # b) cs (k - 1))" by simp
    then show ?thesis by (rule Cons.IH)
  next
    case False
    note k0 = this
    show ?thesis
    proof (cases "match_at ic r b (c # cs)")
      case None
      with k0 Cons.prems have "m \<in> set (finditer_from ic r (c # b) cs 0)" by simp
      then show ?thesis by (rule Cons.IH)
    next
      case (Some m1)
      note m1 = this
      show ?thesis
      proof (cases "0 < length (group0 m1)")
        case True
        with k0 m1 Cons.prems
        have "m = m1 \<or> m \<in> set (finditer_from ic r (c # b) cs (length (group0 m1) - 1))"
          by simp
        then show ?thesis
        proof
          assume "m = m1"
          with m1 show ?thesis using match_at_in_run by fastforce
        next
          assume "m \<in> set (finditer_from ic r (c # b) cs (length (group0 m1) - 1))"
          then show ?thesis by (rule Cons.IH)
        qed
      next
        case False
        note e = this
        show ?thesis
        proof (cases "match_adv_at ic r b (c # cs)")
          case None
          with k0 m1 e Cons.prems
          have "m = m1 \<or> m \<in> set (finditer_from ic r (c # b) cs 0)" by simp
          then show ?thesis
          proof
            assume "m = m1"
            with m1 show ?thesis using match_at_in_run by fastforce
          next
            assume "m \<in> set (finditer_from ic r (c # b) cs 0)"
            then show ?thesis by (rule Cons.IH)
          qed
        next
          case (Some m2)
          with k0 m1 e Cons.prems
          have "m = m1 \<or> m = m2
                \<or> m \<in> set (finditer_from ic r (c # b) cs (length (group0 m2) - 1))"
            by simp
          then consider "m = m1" | "m = m2"
            | "m \<in> set (finditer_from ic r (c # b) cs (length (group0 m2) - 1))"
            by blast
          then show ?thesis
          proof cases
            case 1
            with m1 show ?thesis using match_at_in_run by fastforce
          next
            case 2
            with Some show ?thesis using match_adv_at_in_run by fastforce
          next
            case 3
            then show ?thesis by (rule Cons.IH)
          qed
        qed
      qed
    qed
  qed
qed

text \<open>Every entity pattern is a group between two word boundaries.\<close>

lemma bounded_group_run:
  assumes "st \<in> set (rx_run ic (Seq WordB (Seq (Grp r) WordB)) (b, a, g))"
  shows "group1 (to_match a st) = Some (group0 (to_match a st))"
  using assms by (auto split: if_splits)

lemma number_match_digits:
  assumes "st \<in> set (rx_run ic number_pattern (b, a, None))"
  shows "digits (group0 (to_match a st))"
proof -
  obtain b' a' g' where st: "st = (b', a', g')" by (cases st)
  have shape: "number_pattern = Seq WordB (Seq (Grp (Rep Digit 1 None)) WordB)"
    by (simp add: number_pattern_def plus_def)
  have dg: "digit_group number_pattern" by (simp add: shape)
  from rx_run_digit_group[OF dg, of b' a' g' ic b a None] assms st
  obtain d where d: "g' = Some d" "digits d" by auto
  from assms have "st \<in> set (rx_run ic (Seq WordB (Seq (Grp (Rep Digit 1 None)) WordB)) (b, a, None))"
    by (simp only: shape)
  then have "group1 (to_match a st) = Some (group0 (to_match a st))"
    by (rule bounded_group_run)
  with st d show ?thesis by simp
qed

lemma finditer_number_digits:
  "list_all (\<lambda>m. digits (group0 m)) (re_finditer False number_pattern text)"
  unfolding list_all_iff re_finditer_def
  using finditer_from_in_run number_match_digits by blast

lemma append_each_map: "append_each f acc ms = acc @ map f ms"
  by (induction ms arbitrary: acc) simp_all

lemma append_numbers_digits:
  "list_all (\<lambda>m. digits (group0 m)) ms \<Longrightarrow>
     append_numbers 0 acc ms = Inr (acc @ map (\<lambda>m. number_entity (decimal (group0 m))) ms)"
  by (induction ms arbitrary: acc) (simp_all add: py_int_def digits_def)

lemma extract_entities_scan: "extract_entities 0 text = Inr (scan_entities text)"
  by (simp add: extract_entities_def scan_entities_def append_each_map
      append_numbers_digits[OF finditer_number_digits])

lemma search_digit_group:
  assumes "digit_group r" and "re_search ic r text = Some m"
  shows "\<exists>d. group1 m = Some d \<and> digits d"
proof -
  from assms(2) obtain b a st where st: "st \<in> set (rx_run ic r (b, a, None))" and m: "m = to_match a st"
    unfolding re_search_def using search_from_in_run by blast
  obtain b' a' g' where [simp]: "st = (b', a', g')" by (cases st)
  from rx_run_digit_group[OF assms(1), of b' a' g' ic b a None] st m show ?thesis by simp
qed

lemma int_group1_digit_group:
  assumes "digit_group r" and "re_search ic r text = Some m"
  shows "\<exists>n. int_group1 0 m = Inr n"
  using search_digit_group[OF assms] by (auto simp: int_group1_def py_int_def digits_def)

lemma first_count_ok:
  "list_all digit_group ps \<Longrightarrow> \<exists>v. first_count 0 ps text = Inr v"
proof (induction ps)
  case Nil
  then show ?case by simp
next
  case (Cons p ps)
  show ?case
  proof (cases "re_search False p text")
    case None
    with Cons show ?thesis by simp
  next
    case (Some m)
    from Cons.prems have "digit_group p" by simp
    from int_group1_digit_group[OF this Some] obtain n where "int_group1 0 m = Inr n" ..
    with Some show ?thesis by simp
  qed
qed

lemma parse_capacity_ok: "\<exists>c. parse_capacity_constraint 0 text = Inr c"
proof -
  have mx: "list_all digit_group max_patterns" and mn: "list_all digit_group min_patterns"
    by (simp_all add: max_patterns_def min_patterns_def plus_def)
  from first_count_ok[OF mx, of "text"] first_count_ok[OF mn, of "text"]
  show ?thesis by (auto simp: parse_capacity_constraint_def)
qed

lemma parse_rest_ok:
  "\<exists>x. parse_rest_constraint 0 text = Inr x \<and> between_events x"
proof -
  have d: "digit_group day_between_pattern" and h: "digit_group hour_between_pattern"
    by (simp_all add: day_between_pattern_def hour_between_pattern_def plus_def)
  let ?r0 = "\<lparr>min_hours = None, min_days = None, between_events = True\<rparr>"
  have "\<exists>x. (case re_search False day_between_pattern text of
               None \<Rightarrow> Inr ?r0
             | Some day_match \<Rightarrow>
                 (case int_group1 0 day_match of
                    Inl e \<Rightarrow> Inl e
                  | Inr n \<Rightarrow> Inr (?r0\<lparr>min_days := Some n\<rparr>))) = Inr x \<and> between_events x"
  proof (cases "re_search False day_between_pattern text")
    case None
    then show ?thesis by simp
  next
    case (Some m)
    from int_group1_digit_group[OF d Some] obtain n where "int_group1 0 m = Inr n" ..
    with Some show ?thesis by simp
  qed
  then obtain x where x: "(case re_search False day_between_pattern text of
               None \<Rightarrow> Inr ?r0
             | Some day_match \<Rightarrow>
                 (case int_group1 0 day_match of
                    Inl e \<Rightarrow> Inl e
                  | Inr n \<Rightarrow> Inr (?r0\<lparr>min_days := Some n\<rparr>))) = Inr x" and bx: "between_events x"
    by blast
  show ?thesis
  proof (cases "re_search False hour_between_pattern text")
    case None
    with x bx show ?thesis by (simp add: parse_rest_constraint_def)
  next
    case (Some m)
    from int_group1_digit_group[OF h Some] obtain n where "int_group1 0 m = Inr n" ..
    with Some x bx show ?thesis by (simp add: parse_rest_constraint_def)
  qed
qed

section \<open>Where a match can end\<close>

lemma lit_match_avoids:
  "list_all (\<lambda>p. \<not> chr_eq ic p c) s \<Longrightarrow> lit_match ic s b (q @ c # T) = Some (b', a') \<Longrightarrow>
     \<exists>q'. a' = q' @ c # T"
proof (induction s arbitrary: b q)
  case Nil
  then show ?case by auto
next
  case (Cons p ps)
  show ?case
  proof (cases q)
    case Nil
    with Cons.prems show ?thesis by simp
  next
    case (Cons x q1)
    with Cons.prems Cons.IH[of "x # b" q1] show ?thesis by (auto split: if_splits)
  qed
qed

lemma length_takeWhile_barrier:
  "\<not> P c \<Longrightarrow> length (takeWhile P (q @ c # T)) \<le> length q"
  by (induction q) auto

lemma downto_elem:
  "st \<in> set (if n < lo then [] else map f (rev [lo..<Suc n])) \<Longrightarrow>
     \<exists>m. lo \<le> m \<and> m \<le> n \<and> st = f m"
proof -
  assume "st \<in> set (if n < lo then [] else map f (rev [lo..<Suc n]))"
  then have "\<not> n < lo" and "st \<in> f ` set [lo..<Suc n]"
    by (auto split: if_splits simp del: upt_Suc)
  then obtain m where "m \<in> set [lo..<Suc n]" "st = f m" by blast
  then show ?thesis by (auto simp del: upt_Suc)
qed

lemma rx_run_Rep_elem:
  assumes "(b', a', g') \<in> set (rx_run ic (Rep k lo hi) (b, a, g))"
  shows "\<exists>m. m \<le> length (takeWhile (in_class ic k) a) \<and> lo \<le> m
           \<and> a' = drop m a \<and> b' = rev (take m a) @ b \<and> g' = g"
proof -
  let ?avail = "length (takeWhile (in_class ic k) a)"
  let ?n = "case hi of None \<Rightarrow> ?avail | Some h \<Rightarrow> min ?avail h"
  from assms have "(b', a', g') \<in> set (if ?n < lo then []
      else map (\<lambda>m. (rev (take m a) @ b, drop m a, g)) (rev [lo..<Suc ?n]))"
    by (simp only: rx_run.simps Let_def)
  from downto_elem[OF this] obtain m where m: "lo \<le> m" "m \<le> ?n"
    and eq: "(b', a', g') = (rev (take m a) @ b, drop m a, g)"
    by blast
  have "?n \<le> ?avail" by (cases hi) simp_all
  with m have "m \<le> ?avail" by linarith
  with m(1) eq show ?thesis by auto
qed

lemma rx_run_avoids:
  "avoids ic r c \<Longrightarrow> (b', a', g') \<in> set (rx_run ic r (b, q @ c # T, g)) \<Longrightarrow>
     \<exists>q'. a' = q' @ c # T"
proof (induction r arbitrary: b q g b' a' g')
  case (Lit s)
  from Lit.prems(2) have "lit_match ic s b (q @ c # T) = Some (b', a')"
    by (auto split: option.splits)
  with Lit.prems(1) show ?case using lit_match_avoids[of ic c s b q T b' a'] by simp
next
  case (Cls k)
  then show ?case by (cases q) (auto split: if_splits)
next
  case (Rep k lo hi)
  let ?n = "length (takeWhile (in_class ic k) (q @ c # T))"
  from Rep.prems(1) have le: "?n \<le> length q"
    using length_takeWhile_barrier[of "in_class ic k" c q T] by simp
  from rx_run_Rep_elem[OF Rep.prems(2)] obtain m where m: "m \<le> ?n" and a': "a' = drop m (q @ c # T)"
    by blast
  from m le have "m \<le> length q" by simp
  with a' have "a' = drop m q @ c # T" by simp
  then show ?case by blast
next
  case (Opt r)
  then show ?case by auto
next
  case (Seq r1 r2)
  from Seq.prems obtain st where st: "st \<in> set (rx_run ic r1 (b, q @ c # T, g))"
    and fin: "(b', a', g') \<in> set (rx_run ic r2 st)"
    by auto
  obtain b1 a1 g1 where s: "st = (b1, a1, g1)" by (cases st)
  from Seq.IH(1)[of b1 a1 g1 b q g] st s Seq.prems(1) obtain q1 where "a1 = q1 @ c # T" by auto
  with Seq.IH(2)[of b' a' g' b1 q1 g1] fin s Seq.prems(1) show ?case by auto
next
  case (Alt r1 r2)
  then show ?case by auto
next
  case (Grp r)
  then show ?case by auto
next
  case WordB
  then show ?case by (auto split: if_splits)
qed

lemma length_group0:
  "length a' \<le> length a \<Longrightarrow> length (group0 (to_match a (b', a', g'))) = length a - length a'"
  by simp

lemma stays_within_Cons:
  assumes "stays_within ic r b (c # cs) post"
  shows "stays_within ic r (c # b) cs post"
  unfolding stays_within_def
proof (intro allI impI)
  fix p1 p2 b' a' g'
  assume h: "cs = p1 @ p2 \<and> p2 \<noteq> [] \<and> (b', a', g') \<in> set (rx_run ic r (rev p1 @ c # b, p2 @ post, None))"
  then have "c # cs = (c # p1) @ p2" "p2 \<noteq> []"
    "(b', a', g') \<in> set (rx_run ic r (rev (c # p1) @ b, p2 @ post, None))"
    by simp_all
  with assms show "length post \<le> length a' \<and> length a' \<le> length (p2 @ post)"
    unfolding stays_within_def by blast
qed

lemma stays_within_match:
  assumes sw: "stays_within ic r b (c # cs) post"
    and st: "st \<in> set (rx_run ic r (b, c # cs @ post, None))"
  shows "length (group0 (to_match (c # cs @ post) st)) - 1 \<le> length cs"
proof -
  obtain b' a' g' where s: "st = (b', a', g')" by (cases st)
  from sw st s have "length post \<le> length a' \<and> length a' \<le> length ((c # cs) @ post)"
    unfolding stays_within_def by (metis append_Cons append_Nil list.distinct(1) rev.simps(1))
  then show ?thesis unfolding s by (simp; linarith)
qed

lemma finditer_from_prefix:
  "stays_within ic r b pre post \<Longrightarrow> k \<le> length pre \<Longrightarrow>
     \<exists>ms. finditer_from ic r b (pre @ post) k = ms @ finditer_from ic r (rev pre @ b) post 0"
proof (induction pre arbitrary: b k)
  case Nil
  then show ?case by simp
next
  case (Cons c cs)
  note sw' = stays_within_Cons[OF Cons.prems(1)]
  have step: "\<exists>ms. finditer_from ic r (c # b) (cs @ post) j = ms @ finditer_from ic r (rev (c # cs) @ b) post 0"
    if "j \<le> length cs" for j
    using Cons.IH[OF sw' that] by simp
  show ?case
  proof (cases "0 < k")
    case True
    with Cons.prems(2) have "k - 1 \<le> length cs" by simp
    from step[OF this] True show ?thesis by simp
  next
    case False
    note k0 = this
    show ?thesis
    proof (cases "match_at ic r b (c # cs @ post)")
      case None
      with k0 step[of 0] show ?thesis by simp
    next
      case (Some m1)
      from match_at_in_run[OF Some] obtain st where
        "st \<in> set (rx_run ic r (b, c # cs @ post, None))" "m1 = to_match (c # cs @ post) st"
        by blast
      with stays_within_match[OF Cons.prems(1)] have l1: "length (group0 m1) - 1 \<le> length cs"
        by blast
      show ?thesis
      proof (cases "0 < length (group0 m1)")
        case True
        from step[OF l1] obtain ms where
          "finditer_from ic r (c # b) (cs @ post) (length (group0 m1) - 1)
             = ms @ finditer_from ic r (rev (c # cs) @ b) post 0" ..
        with k0 Some True have
          "finditer_from ic r b ((c # cs) @ post) k
             = (m1 # ms) @ finditer_from ic r (rev (c # cs) @ b) post 0"
          by simp
        then show ?thesis by blast
      next
        case False
        note e = this
        show ?thesis
        proof (cases "match_adv_at ic r b (c # cs @ post)")
          case None
          from step[of 0] obtain ms where
            "finditer_from ic r (c # b) (cs @ post) 0
               = ms @ finditer_from ic r (rev (c # cs) @ b) post 0" by auto
          with k0 Some e None have
            "finditer_from ic r b ((c # cs) @ post) k
               = (m1 # ms) @ finditer_from ic r (rev (c # cs) @ b) post 0"
            by simp
          then show ?thesis by blast
        next
          case (Some m2)
          from match_adv_at_in_run[OF Some] obtain st2 where
            "st2 \<in> set (rx_run ic r (b, c # cs @ post, None))" "m2 = to_match (c # cs @ post) st2"
            by blast
          with stays_within_match[OF Cons.prems(1)] have l2: "length (group0 m2) - 1 \<le> length cs"
            by blast
          from step[OF l2] obtain ms where
            "finditer_from ic r (c # b) (cs @ post) (length (group0 m2) - 1)
               = ms @ finditer_from ic r (rev (c # cs) @ b) post 0" ..
          with k0 \<open>match_at ic r b (c # cs @ post) = Some m1\<close> e Some have
            "finditer_from ic r b ((c # cs) @ post) k
               = (m1 # m2 # ms) @ finditer_from ic r (rev (c # cs) @ b) post 0"
            by simp
          then show ?thesis by blast
        qed
      qed
    qed
  qed
qed

lemma lit_match_shorter:
  "lit_match ic s b a = Some (b', a') \<Longrightarrow> \<exists>u. a = u @ a' \<and> b' = rev u @ b"
proof (induction s arbitrary: b a)
  case Nil
  then show ?case by simp
next
  case (Cons p ps)
  show ?case
  proof (cases a)
    case Nil
    with Cons.prems show ?thesis by simp
  next
    case (Cons x xs)
    with Cons.prems have "lit_match ic ps (x # b) xs = Some (b', a')"
      by (simp split: if_splits)
    from Cons.IH[OF this] obtain u where "xs = u @ a'" "b' = rev u @ x # b" by blast
    with Cons have "a = (x # u) @ a' \<and> b' = rev (x # u) @ b" by simp
    then show ?thesis by blast
  qed
qed

text \<open>What a match consumes is a prefix of the text from the position on.\<close>

lemma rx_run_consumes:
  "(b', a', g') \<in> set (rx_run ic r (b, a, g)) \<Longrightarrow> \<exists>u. a = u @ a' \<and> b' = rev u @ b"
proof (induction r arbitrary: b a g b' a' g')
  case (Lit s)
  then have "lit_match ic s b a = Some (b', a')" by (auto split: option.splits)
  then show ?case by (rule lit_match_shorter)
next
  case (Cls k)
  then show ?case by (cases a) (auto split: if_splits)
next
  case (Rep k lo hi)
  from rx_run_Rep_elem[OF Rep.prems] obtain m where "a' = drop m a" "b' = rev (take m a) @ b"
    by blast
  then have "a = take m a @ a' \<and> b' = rev (take m a) @ b" by simp
  then show ?case by blast
next
  case (Opt r)
  then show ?case by auto
next
  case (Seq r1 r2)
  from Seq.prems obtain st where st: "st \<in> set (rx_run ic r1 (b, a, g))"
    and fin: "(b', a', g') \<in> set (rx_run ic r2 st)"
    by auto
  obtain b1 a1 g1 where s: "st = (b1, a1, g1)" by (cases st)
  from Seq.IH(1)[of b1 a1 g1 b a g] st s obtain u1 where u1: "a = u1 @ a1" "b1 = rev u1 @ b" by auto
  from Seq.IH(2)[of b' a' g' b1 a1 g1] fin s obtain u2 where u2: "a1 = u2 @ a'" "b' = rev u2 @ b1" by auto
  from u1 u2 have "a = (u1 @ u2) @ a' \<and> b' = rev (u1 @ u2) @ b" by simp
  then show ?case by blast
next
  case (Alt r1 r2)
  then show ?case by auto
next
  case (Grp r)
  then show ?case by auto
next
  case WordB
  then show ?case by (auto split: if_splits)
qed

lemma leaves_Seq: "leaves ic r1 P R \<Longrightarrow> leaves ic r2 R Q \<Longrightarrow> leaves ic (Seq r1 r2) P Q"
  unfolding leaves_def by fastforce

lemma leaves_Alt: "leaves ic r1 P Q \<Longrightarrow> leaves ic r2 P Q \<Longrightarrow> leaves ic (Alt r1 r2) P Q"
  unfolding leaves_def by fastforce

lemma leaves_Grp: "leaves ic r P Q \<Longrightarrow> leaves ic (Grp r) P Q"
  unfolding leaves_def by fastforce

lemma leaves_WordB: "leaves ic WordB P P"
  unfolding leaves_def by (auto split: if_splits)

lemma leaves_weaken: "leaves ic r P Q \<Longrightarrow> (\<And>a. Q a \<Longrightarrow> Q' a) \<Longrightarrow> leaves ic r P Q'"
  unfolding leaves_def by blast

lemma leaves_either:
  "leaves ic r P1 Q \<Longrightarrow> leaves ic r P2 Q \<Longrightarrow> leaves ic r (\<lambda>a. P1 a \<or> P2 a) Q"
  unfolding leaves_def by blast

lemma leaves_avoids: "avoids ic r c \<Longrightarrow> leaves ic r (ends_with (c # T)) (ends_with (c # T))"
  unfolding leaves_def ends_with_def using rx_run_avoids by blast

lemma ends_with_Cons: "ends_with (c # T) a \<Longrightarrow> ends_with T a"
proof -
  assume "ends_with (c # T) a"
  then obtain q where "a = q @ c # T" unfolding ends_with_def ..
  then have "a = (q @ [c]) @ T" by simp
  then show ?thesis unfolding ends_with_def by blast
qed

lemma leaves_stays_within:
  assumes pre: "pre \<noteq> []"
    and l: "leaves ic r (ends_with (last pre # post)) (ends_with post)"
  shows "stays_within ic r b pre post"
  unfolding stays_within_def
proof (intro allI impI)
  fix p1 p2 b' a' g'
  assume h: "pre = p1 @ p2 \<and> p2 \<noteq> [] \<and> (b', a', g') \<in> set (rx_run ic r (rev p1 @ b, p2 @ post, None))"
  then have "last p2 = last pre" by simp
  with h have "p2 @ post = butlast p2 @ last pre # post"
    by (metis append.assoc append_Cons append_Nil append_butlast_last_id)
  then have "ends_with (last pre # post) (p2 @ post)" unfolding ends_with_def by blast
  with l h have "ends_with post a'" unfolding leaves_def by blast
  then have 1: "length post \<le> length a'" unfolding ends_with_def by auto
  from h rx_run_consumes[of b' a' g' ic r "rev p1 @ b" "p2 @ post" None]
  obtain u where "p2 @ post = u @ a'" by blast
  then have "length (p2 @ post) = length u + length a'" by (metis length_append)
  then have 2: "length a' \<le> length (p2 @ post)" by linarith
  from 1 2 show "length post \<le> length a' \<and> length a' \<le> length (p2 @ post)" ..
qed

lemma leaves_pre: "leaves ic r P Q \<Longrightarrow> (\<And>a. P' a \<Longrightarrow> P a) \<Longrightarrow> leaves ic r P' Q"
  unfolding leaves_def by blast

lemma digit_is_word: "is_digit c \<Longrightarrow> is_word c"
proof -
  assume "is_digit c"
  then have "c \<in> set ''0123456789''" by (simp add: is_digit_def)
  moreover have "list_all is_word ''0123456789''" by code_simp
  ultimately show ?thesis unfolding list_all_iff by blast
qed

lemma am_pm_letters_word: "list_all is_word ''AMPamp''"
  by code_simp

lemma colon_facts: "\<not> is_word CHR '':''" "\<not> is_digit CHR '':''" "\<not> is_space CHR '':''"
  by code_simp+

lemma six_facts: "is_word CHR ''6''" "is_digit CHR ''6''" "\<not> is_space CHR ''6''"
  by code_simp+

lemma zero_facts: "is_word CHR ''0''" "is_digit CHR ''0''"
  by code_simp+

lemma number_leaves:
  assumes "\<not> is_word w"
  shows "leaves False number_pattern (ends_with (w # S)) (ends_with S)"
proof -
  from assms have "\<not> is_digit w" using digit_is_word by blast
  then have "avoids False number_pattern w"
    by (simp add: number_pattern_def plus_def)
  from leaves_avoids[OF this] show ?thesis
    by (rule leaves_weaken) (rule ends_with_Cons)
qed

lemma time_pattern_shape:
  "time_pattern =
     Seq WordB
       (Seq (Grp (Alt (Seq digits12 (Seq (Lit '':'') (Seq digits22 (Seq (star Space) (Opt AM_PM)))))
                      (Seq digits12 (Seq (star Space) AM_PM))))
            WordB)"
  by (simp add: time_pattern_def digits12_def digits22_def)

lemma not_word_letters:
  assumes "\<not> is_word w"
  shows "w \<notin> set ''AMPamp''"
  using assms am_pm_letters_word unfolding list_all_iff by blast

lemma avoids_AM_PM: "\<not> is_word w \<Longrightarrow> avoids False AM_PM w"
  using not_word_letters[of w] by (auto simp: AM_PM_def chr_eq_def)

lemma avoids_AM_PM_six: "avoids False AM_PM CHR ''6''"
  by (simp add: AM_PM_def chr_eq_def)

lemma time_leaves_plain:
  assumes w: "\<not> is_word w" and c: "w \<noteq> CHR '':''" and s: "\<not> is_space w"
  shows "leaves False time_pattern (ends_with (w # S)) (ends_with S)"
proof -
  from w have "\<not> is_digit w" using digit_is_word by blast
  with c s avoids_AM_PM[OF w] have "avoids False time_pattern w"
    unfolding time_pattern_shape digits12_def digits22_def star_def
    by (simp add: chr_eq_def)
  from leaves_avoids[OF this] show ?thesis
    by (rule leaves_weaken) (rule ends_with_Cons)
qed

lemma time_leaves_space:
  assumes w: "\<not> is_word w" and s: "is_space w"
  shows "leaves False time_pattern (ends_with (w # CHR ''6'' # S)) (ends_with (CHR ''6'' # S))"
proof -
  let ?Ew = "ends_with (w # CHR ''6'' # S)"
  let ?E6 = "ends_with (CHR ''6'' # S)"
  from w have d: "\<not> is_digit w" using digit_is_word by blast
  from s colon_facts(3) have c: "w \<noteq> CHR '':''" by blast
  have D: "leaves False digits12 ?Ew ?Ew"
    by (rule leaves_avoids) (simp add: digits12_def d)
  have C: "leaves False (Lit '':'') ?Ew ?Ew"
    by (rule leaves_avoids) (simp add: chr_eq_def c[symmetric])
  have DD: "leaves False digits22 ?Ew ?Ew"
    by (rule leaves_avoids) (simp add: digits22_def d)
  have tail1: "leaves False (Seq (star Space) (Opt AM_PM)) ?E6 ?E6"
    by (rule leaves_avoids) (simp add: star_def six_facts avoids_AM_PM_six)
  have tail2: "leaves False (Seq (star Space) AM_PM) ?E6 ?E6"
    by (rule leaves_avoids) (simp add: star_def six_facts avoids_AM_PM_six)
  have tail1': "leaves False (Seq (star Space) (Opt AM_PM)) ?Ew ?E6"
    by (rule leaves_pre[OF tail1]) (rule ends_with_Cons)
  have tail2': "leaves False (Seq (star Space) AM_PM) ?Ew ?E6"
    by (rule leaves_pre[OF tail2]) (rule ends_with_Cons)
  have alt1: "leaves False (Seq digits12 (Seq (Lit '':'') (Seq digits22 (Seq (star Space) (Opt AM_PM))))) ?Ew ?E6"
    by (intro leaves_Seq[OF D] leaves_Seq[OF C] leaves_Seq[OF DD] tail1')
  have alt2: "leaves False (Seq digits12 (Seq (star Space) AM_PM)) ?Ew ?E6"
    by (intro leaves_Seq[OF D] tail2')
  have grp: "leaves False (Grp (Alt (Seq digits12 (Seq (Lit '':'') (Seq digits22 (Seq (star Space) (Opt AM_PM)))))
                      (Seq digits12 (Seq (star Space) AM_PM)))) ?Ew ?E6"
    by (intro leaves_Grp leaves_Alt alt1 alt2)
  show ?thesis
    unfolding time_pattern_shape
    by (intro leaves_Seq[OF leaves_WordB] leaves_Seq[OF grp] leaves_WordB)
qed

lemma lit_colon_leaves:
  "leaves False (Lit '':'') (ends_with (CHR '':'' # S)) (\<lambda>a. ends_with (CHR '':'' # S) a \<or> a = S)"
  unfolding leaves_def
proof (intro allI impI)
  fix b a g b' a' g'
  assume h: "ends_with (CHR '':'' # S) a \<and> (b', a', g') \<in> set (rx_run False (Lit '':'') (b, a, g))"
  then obtain q where a: "a = q @ CHR '':'' # S" unfolding ends_with_def by blast
  show "ends_with (CHR '':'' # S) a' \<or> a' = S"
  proof (cases q)
    case Nil
    with a h have "a' = S" by (auto simp: chr_eq_def split: if_splits)
    then show ?thesis ..
  next
    case (Cons x q')
    with a h have "a' = q' @ CHR '':'' # S" by (auto simp: chr_eq_def split: if_splits)
    then show ?thesis unfolding ends_with_def by blast
  qed
qed

lemma digits22_at_six:
  "leaves False digits22 (\<lambda>a. a = CHR ''6'' # CHR '':'' # S) Q"
  unfolding leaves_def digits22_def
  by (simp add: six_facts colon_facts)

lemma time_leaves_colon:
  "leaves False time_pattern (ends_with (CHR '':'' # CHR ''6'' # CHR '':'' # S))
     (ends_with (CHR ''6'' # CHR '':'' # S))"
proof -
  let ?S = "CHR ''6'' # CHR '':'' # S"
  let ?Ew = "ends_with (CHR '':'' # ?S)"
  let ?E6 = "ends_with ?S"
  note d = colon_facts(2)
  have D: "leaves False digits12 ?Ew ?Ew"
    by (rule leaves_avoids) (simp add: digits12_def d)
  have C: "leaves False (Lit '':'') ?Ew (\<lambda>a. ?Ew a \<or> a = ?S)"
    by (rule lit_colon_leaves)
  have DD1: "leaves False digits22 ?Ew ?Ew"
    by (rule leaves_avoids) (simp add: digits22_def d)
  have DD: "leaves False digits22 (\<lambda>a. ?Ew a \<or> a = ?S) ?Ew"
    by (rule leaves_either[OF DD1 digits22_at_six])
  have tail1: "leaves False (Seq (star Space) (Opt AM_PM)) ?Ew ?Ew"
    by (rule leaves_avoids) (simp add: star_def colon_facts avoids_AM_PM)
  have tail2: "leaves False (Seq (star Space) AM_PM) ?Ew ?Ew"
    by (rule leaves_avoids) (simp add: star_def colon_facts avoids_AM_PM)
  have alt1: "leaves False (Seq digits12 (Seq (Lit '':'') (Seq digits22 (Seq (star Space) (Opt AM_PM))))) ?Ew ?Ew"
    by (intro leaves_Seq[OF D] leaves_Seq[OF C] leaves_Seq[OF DD] tail1)
  have alt2: "leaves False (Seq digits12 (Seq (star Space) AM_PM)) ?Ew ?Ew"
    by (intro leaves_Seq[OF D] tail2)
  have grp: "leaves False (Grp (Alt (Seq digits12 (Seq (Lit '':'') (Seq digits22 (Seq (star Space) (Opt AM_PM)))))
                      (Seq digits12 (Seq (star Space) AM_PM)))) ?Ew ?Ew"
    by (intro leaves_Grp leaves_Alt alt1 alt2)
  have "leaves False time_pattern ?Ew ?Ew"
    unfolding time_pattern_shape
    by (intro leaves_Seq[OF leaves_WordB] leaves_Seq[OF grp] leaves_WordB)
  then show ?thesis
    by (rule leaves_weaken) (rule ends_with_Cons)
qed

lemma time_leaves:
  assumes "\<not> is_word w"
  shows "leaves False time_pattern (ends_with (w # CHR ''6'' # CHR '':'' # S))
           (ends_with (CHR ''6'' # CHR '':'' # S))"
proof (cases "w = CHR '':''")
  case True
  then show ?thesis using time_leaves_colon by simp
next
  case False
  show ?thesis
  proof (cases "is_space w")
    case True
    with assms show ?thesis by (rule time_leaves_space)
  next
    case False
    with assms \<open>w \<noteq> CHR '':''\<close> show ?thesis by (rule time_leaves_plain)
  qed
qed

lemma no_word_before:
  "pre = [] \<or> \<not> is_word (last pre) \<Longrightarrow> \<not> (case rev pre of [] \<Rightarrow> False | c # _ \<Rightarrow> is_word c)"
  by (cases pre rule: rev_cases) auto

lemma number_at_six:
  assumes nb: "\<not> (case bp of [] \<Rightarrow> False | c # _ \<Rightarrow> is_word c)"
    and na: "post = [] \<or> \<not> is_word (hd post)"
  shows "finditer_from False number_pattern bp (''6:00'' @ post) 0 =
           Match ''6'' (Some ''6'') # Match ''00'' (Some ''00'')
             # finditer_from False number_pattern (rev ''6:00'' @ bp) post 0"
proof (cases post)
  case Nil
  with nb show ?thesis
    by (simp add: number_pattern_def plus_def match_at_def at_boundary_def
        six_facts colon_facts zero_facts)
next
  case (Cons c cs)
  with na have "\<not> is_word c" by simp
  then have "\<not> is_digit c" using digit_is_word by blast
  with nb Cons \<open>\<not> is_word c\<close> show ?thesis
    by (simp add: number_pattern_def plus_def match_at_def at_boundary_def
        six_facts colon_facts zero_facts)
qed

lemma leaves_consumes: "leaves ic r (\<lambda>a. a = T) (\<lambda>a'. \<exists>v. T = v @ a')"
  unfolding leaves_def using rx_run_consumes by blast

lemma time_from_six:
  "leaves False time_pattern (\<lambda>a. a = ''6:00'' @ post) (\<lambda>a'. \<exists>v. post = v @ a')"
proof -
  have D: "leaves False digits12 (\<lambda>a. a = ''6:00'' @ post) (\<lambda>a. a = '':00'' @ post)"
    unfolding leaves_def digits12_def by (simp add: six_facts colon_facts)
  have C: "leaves False (Lit '':'') (\<lambda>a. a = '':00'' @ post) (\<lambda>a. a = ''00'' @ post)"
    unfolding leaves_def by (simp add: chr_eq_def)
  have DD: "leaves False digits22 (\<lambda>a. a = ''00'' @ post) (\<lambda>a. a = post)"
    unfolding leaves_def digits22_def by (auto simp: zero_facts Let_def split: if_splits)
  have tail: "leaves False (Seq (star Space) (Opt AM_PM)) (\<lambda>a. a = post) (\<lambda>a'. \<exists>v. post = v @ a')"
    by (rule leaves_consumes)
  have alt1: "leaves False (Seq digits12 (Seq (Lit '':'') (Seq digits22 (Seq (star Space) (Opt AM_PM)))))
      (\<lambda>a. a = ''6:00'' @ post) (\<lambda>a'. \<exists>v. post = v @ a')"
    by (intro leaves_Seq[OF D] leaves_Seq[OF C] leaves_Seq[OF DD] tail)
  have S: "leaves False (star Space) (\<lambda>a. a = '':00'' @ post) (\<lambda>a. a = '':00'' @ post)"
    unfolding leaves_def star_def by (simp add: colon_facts)
  have A: "leaves False AM_PM (\<lambda>a. a = '':00'' @ post) (\<lambda>a'. \<exists>v. post = v @ a')"
    unfolding leaves_def AM_PM_def by (simp add: chr_eq_def)
  have alt2: "leaves False (Seq digits12 (Seq (star Space) AM_PM))
      (\<lambda>a. a = ''6:00'' @ post) (\<lambda>a'. \<exists>v. post = v @ a')"
    by (intro leaves_Seq[OF D] leaves_Seq[OF S] A)
  have grp: "leaves False (Grp (Alt (Seq digits12 (Seq (Lit '':'') (Seq digits22 (Seq (star Space) (Opt AM_PM)))))
                      (Seq digits12 (Seq (star Space) AM_PM))))
      (\<lambda>a. a = ''6:00'' @ post) (\<lambda>a'. \<exists>v. post = v @ a')"
    by (intro leaves_Grp leaves_Alt alt1 alt2)
  show ?thesis
    unfolding time_pattern_shape
    by (intro leaves_Seq[OF leaves_WordB] leaves_Seq[OF grp] leaves_WordB)
qed

lemma Rep_zero_mem: "(b, a, g) \<in> set (rx_run ic (Rep k 0 None) (b, a, g))"
proof -
  let ?n = "length (takeWhile (in_class ic k) a)"
  let ?f = "\<lambda>m. (rev (take m a) @ b, drop m a, g)"
  have "(0::nat) \<in> set (rev [0..<Suc ?n])" by (simp del: upt_Suc)
  then have "?f 0 \<in> ?f ` set (rev [0..<Suc ?n])" by (rule imageI)
  then have "(b, a, g) \<in> set (map ?f (rev [0..<Suc ?n]))" by (simp del: upt_Suc set_rev)
  then show ?thesis by (simp add: Let_def del: upt_Suc set_rev set_map)
qed

lemma mem_Seq:
  "st1 \<in> set (rx_run ic r1 st) \<Longrightarrow> st2 \<in> set (rx_run ic r2 st1) \<Longrightarrow>
     st2 \<in> set (rx_run ic (Seq r1 r2) st)"
  by auto

lemma mem_Alt1: "st' \<in> set (rx_run ic r1 st) \<Longrightarrow> st' \<in> set (rx_run ic (Alt r1 r2) st)"
  by simp

lemma mem_Opt_skip: "st \<in> set (rx_run ic (Opt r) st)"
  by simp

lemma mem_Grp:
  "(b', a', g') \<in> set (rx_run ic r (b, a, g)) \<Longrightarrow>
     (b', a', Some (take (length a - length a') a)) \<in> set (rx_run ic (Grp r) (b, a, g))"
  by force

lemma mem_WordB: "at_boundary b a \<Longrightarrow> (b, a, g) \<in> set (rx_run ic WordB (b, a, g))"
  by simp

lemma time_run_nonempty:
  assumes nb: "\<not> (case bp of [] \<Rightarrow> False | c # _ \<Rightarrow> is_word c)"
    and na: "post = [] \<or> \<not> is_word (hd post)"
  shows "(rev ''6:00'' @ bp, post, Some ''6:00'')
           \<in> set (rx_run False time_pattern (bp, ''6:00'' @ post, None))"
proof -
  let ?s0 = "(bp, ''6:00'' @ post, None)"
  let ?s1 = "(rev ''6'' @ bp, '':00'' @ post, None)"
  let ?s2 = "(rev ''6:'' @ bp, ''00'' @ post, None)"
  let ?s3 = "(rev ''6:00'' @ bp, post, None :: string option)"
  let ?s4 = "(rev ''6:00'' @ bp, post, Some ''6:00'')"
  have nw: "\<not> (case post of [] \<Rightarrow> False | c # _ \<Rightarrow> is_word c)"
    using na by (cases post) auto
  have d12: "?s1 \<in> set (rx_run False digits12 ?s0)"
    unfolding digits12_def by (simp add: six_facts colon_facts)
  have col: "?s2 \<in> set (rx_run False (Lit '':'') ?s1)"
    by (simp add: chr_eq_def)
  have d22: "?s3 \<in> set (rx_run False digits22 ?s2)"
    unfolding digits22_def by (auto simp: zero_facts Let_def)
  have sp: "?s3 \<in> set (rx_run False (star Space) ?s3)"
    unfolding star_def by (rule Rep_zero_mem)
  have op: "?s3 \<in> set (rx_run False (Opt AM_PM) ?s3)"
    by (rule mem_Opt_skip)
  have alt1: "?s3 \<in> set (rx_run False
      (Seq digits12 (Seq (Lit '':'') (Seq digits22 (Seq (star Space) (Opt AM_PM))))) ?s0)"
    by (rule mem_Seq[OF d12 mem_Seq[OF col mem_Seq[OF d22 mem_Seq[OF sp op]]]])
  have alt: "?s3 \<in> set (rx_run False
      (Alt (Seq digits12 (Seq (Lit '':'') (Seq digits22 (Seq (star Space) (Opt AM_PM)))))
           (Seq digits12 (Seq (star Space) AM_PM))) ?s0)"
    by (rule mem_Alt1[OF alt1])
  have "(rev ''6:00'' @ bp, post,
           Some (take (length (''6:00'' @ post) - length post) (''6:00'' @ post)))
      \<in> set (rx_run False
      (Grp (Alt (Seq digits12 (Seq (Lit '':'') (Seq digits22 (Seq (star Space) (Opt AM_PM)))))
           (Seq digits12 (Seq (star Space) AM_PM)))) ?s0)"
    by (rule mem_Grp[OF alt])
  then have grp: "?s4 \<in> set (rx_run False
      (Grp (Alt (Seq digits12 (Seq (Lit '':'') (Seq digits22 (Seq (star Space) (Opt AM_PM)))))
           (Seq digits12 (Seq (star Space) AM_PM)))) ?s0)"
    by (simp del: rx_run.simps)
  have b1: "at_boundary bp (''6:00'' @ post)"
    using nb by (simp add: at_boundary_def six_facts)
  have b2: "at_boundary (rev ''6:00'' @ bp) post"
    using nw by (simp add: at_boundary_def zero_facts)
  have w1: "?s0 \<in> set (rx_run False WordB ?s0)"
    using b1 by (rule mem_WordB)
  have w2: "?s4 \<in> set (rx_run False WordB ?s4)"
    using b2 by (rule mem_WordB)
  show ?thesis
    unfolding time_pattern_shape
    by (rule mem_Seq[OF w1 mem_Seq[OF grp w2]])
qed

lemma leavesD:
  "leaves ic r P Q \<Longrightarrow> P a \<Longrightarrow> (b', a', g') \<in> set (rx_run ic r (b, a, g)) \<Longrightarrow> Q a'"
  unfolding leaves_def by blast

lemma take_consumed: "take (length (u @ a') - length a') (u @ a') = u"
  by simp

lemma time_at_six:
  assumes nb: "\<not> (case bp of [] \<Rightarrow> False | c # _ \<Rightarrow> is_word c)"
    and na: "post = [] \<or> \<not> is_word (hd post)"
  shows "\<exists>v ms. finditer_from False time_pattern bp (''6:00'' @ post) 0 =
           Match (''6:00'' @ v) (Some (''6:00'' @ v)) # ms"
proof -
  let ?S = "''6:00'' @ post"
  from time_run_nonempty[OF nb na] obtain st sts where
    R: "rx_run False time_pattern (bp, ?S, None) = st # sts"
    by (cases "rx_run False time_pattern (bp, ?S, None)") auto
  then have mem: "st \<in> set (rx_run False time_pattern (bp, ?S, None))" by simp
  obtain b' a' g' where st: "st = (b', a', g')" by (cases st)
  from mem have "(b', a', g') \<in> set (rx_run False time_pattern (bp, ?S, None))"
    unfolding st .
  from leavesD[OF time_from_six[of post] refl this] obtain v where v: "post = v @ a'"
    by blast
  have "take (length ((''6:00'' @ v) @ a') - length a') ((''6:00'' @ v) @ a') = ''6:00'' @ v"
    by (rule take_consumed)
  then have g0: "group0 (to_match ?S st) = ''6:00'' @ v"
    unfolding st v by (simp del: take_append length_append)
  from mem have "group1 (to_match ?S st) = Some (group0 (to_match ?S st))"
    unfolding time_pattern_shape by (rule bounded_group_run)
  with g0 have m: "to_match ?S st = Match (''6:00'' @ v) (Some (''6:00'' @ v))"
    by (cases "to_match ?S st") simp
  from R have ma: "match_at False time_pattern bp ?S = Some (to_match ?S st)"
    by (simp add: match_at_def)
  have "finditer_from False time_pattern bp (CHR ''6'' # '':00'' @ post) 0 =
      Match (''6:00'' @ v) (Some (''6:00'' @ v))
        # finditer_from False time_pattern (CHR ''6'' # bp) ('':00'' @ post)
            (length (group0 (Match (''6:00'' @ v) (Some (''6:00'' @ v)))) - 1)"
    using ma m by (simp only: finditer_from.simps) simp
  then have "finditer_from False time_pattern bp ?S 0 =
      Match (''6:00'' @ v) (Some (''6:00'' @ v))
        # finditer_from False time_pattern (CHR ''6'' # bp) ('':00'' @ post)
            (length (group0 (Match (''6:00'' @ v) (Some (''6:00'' @ v)))) - 1)"
    by simp
  then show ?thesis by blast
qed

lemma finditer_reaches:
  assumes pre: "pre = [] \<or> \<not> is_word (last pre)"
    and l: "\<And>w. \<not> is_word w \<Longrightarrow> leaves ic r (ends_with (w # S)) (ends_with S)"
  shows "\<exists>ms. re_finditer ic r (pre @ S) = ms @ finditer_from ic r (rev pre) S 0"
proof (cases "pre = []")
  case True
  then show ?thesis by (simp add: re_finditer_def)
next
  case False
  with pre have "\<not> is_word (last pre)" by simp
  from leaves_stays_within[OF False l[OF this]] have "stays_within ic r [] pre S" .
  from finditer_from_prefix[OF this, of 0] show ?thesis by (simp add: re_finditer_def)
qed

lemma mem_mid: "xs = ys @ m # zs \<Longrightarrow> m \<in> set xs"
  by simp

lemma mem_mid2: "xs = ys @ m1 # m2 # zs \<Longrightarrow> m2 \<in> set xs"
  by simp

lemma six_o_clock_numbers:
  assumes "stands_alone pre post"
  shows "Match ''6'' (Some ''6'') \<in> set (re_finditer False number_pattern (pre @ ''6:00'' @ post))"
    and "Match ''00'' (Some ''00'') \<in> set (re_finditer False number_pattern (pre @ ''6:00'' @ post))"
proof -
  from assms have pre: "pre = [] \<or> \<not> is_word (last pre)"
    and na: "post = [] \<or> \<not> is_word (hd post)"
    by (simp_all add: stands_alone_def)
  note nb = no_word_before[OF pre]
  have nl: "leaves False number_pattern (ends_with (w # ''6:00'' @ post)) (ends_with (''6:00'' @ post))"
    if "\<not> is_word w" for w
    using that by (rule number_leaves)
  have "\<exists>ms. re_finditer False number_pattern (pre @ ''6:00'' @ post)
       = ms @ finditer_from False number_pattern (rev pre) (''6:00'' @ post) 0"
    by (rule finditer_reaches[OF pre]) (rule nl)
  then obtain ms where
    "re_finditer False number_pattern (pre @ ''6:00'' @ post)
       = ms @ finditer_from False number_pattern (rev pre) (''6:00'' @ post) 0"
    by (elim exE)
  then have n: "re_finditer False number_pattern (pre @ ''6:00'' @ post)
       = ms @ Match ''6'' (Some ''6'') # Match ''00'' (Some ''00'')
             # finditer_from False number_pattern (rev ''6:00'' @ rev pre) post 0"
    by (simp only: number_at_six[OF nb na])
  from n show "Match ''6'' (Some ''6'')
      \<in> set (re_finditer False number_pattern (pre @ ''6:00'' @ post))"
    by (rule mem_mid)
  from n show "Match ''00'' (Some ''00'')
      \<in> set (re_finditer False number_pattern (pre @ ''6:00'' @ post))"
    by (rule mem_mid2)
qed

lemma decimal_six: "decimal ''6'' = 6" "decimal ''00'' = 0"
  by code_simp+

lemma scan_time_mem:
  "m \<in> set (re_finditer False time_pattern text) \<Longrightarrow> time_entity m \<in> set (scan_entities text)"
  by (simp add: scan_entities_def)

lemma scan_number_mem:
  "m \<in> set (re_finditer False number_pattern text) \<Longrightarrow>
     number_entity (decimal (group0 m)) \<in> set (scan_entities text)"
  by (simp add: scan_entities_def)

lemma six_o_clock_time:
  assumes "stands_alone pre post"
  shows "\<exists>v. \<lparr>ent_type = ''time'', ent_value = PyStr (''6:00'' @ v), ent_confidence = 0.9\<rparr>
              \<in> set (scan_entities (pre @ ''6:00'' @ post))"
proof -
  from assms have pre: "pre = [] \<or> \<not> is_word (last pre)"
    and na: "post = [] \<or> \<not> is_word (hd post)"
    by (simp_all add: stands_alone_def)
  note nb = no_word_before[OF pre]
  have tl: "leaves False time_pattern (ends_with (w # ''6:00'' @ post)) (ends_with (''6:00'' @ post))"
    if "\<not> is_word w" for w
  proof -
    have "''6:00'' @ post = CHR ''6'' # CHR '':'' # (''00'' @ post)" by simp
    then show ?thesis using time_leaves[OF that, of "''00'' @ post"] by (simp only:)
  qed
  have "\<exists>ms. re_finditer False time_pattern (pre @ ''6:00'' @ post)
       = ms @ finditer_from False time_pattern (rev pre) (''6:00'' @ post) 0"
    by (rule finditer_reaches[OF pre]) (rule tl)
  then obtain ms where
    t: "re_finditer False time_pattern (pre @ ''6:00'' @ post)
       = ms @ finditer_from False time_pattern (rev pre) (''6:00'' @ post) 0"
    by (elim exE)
  from time_at_six[OF nb na] obtain v ms2 where
    "finditer_from False time_pattern (rev pre) (''6:00'' @ post) 0 =
           Match (''6:00'' @ v) (Some (''6:00'' @ v)) # ms2"
    by (elim exE)
  with t have "re_finditer False time_pattern (pre @ ''6:00'' @ post)
       = ms @ Match (''6:00'' @ v) (Some (''6:00'' @ v)) # ms2"
    by (simp only:)
  then have "Match (''6:00'' @ v) (Some (''6:00'' @ v))
           \<in> set (re_finditer False time_pattern (pre @ ''6:00'' @ post))"
    by (rule mem_mid)
  then have "time_entity (Match (''6:00'' @ v) (Some (''6:00'' @ v)))
          \<in> set (scan_entities (pre @ ''6:00'' @ post))"
    by (rule scan_time_mem)
  then have "\<lparr>ent_type = ''time'', ent_value = PyStr (''6:00'' @ v), ent_confidence = 0.9\<rparr>
      \<in> set (scan_entities (pre @ ''6:00'' @ post))"
    unfolding time_entity_def rmatch.sel .
  then show ?thesis by - (rule exI)
qed

lemma six_o_clock_entities:
  assumes "stands_alone pre post"
  shows "\<exists>v. \<lparr>ent_type = ''time'', ent_value = PyStr (''6:00'' @ v), ent_confidence = 0.9\<rparr>
              \<in> set (scan_entities (pre @ ''6:00'' @ post))"
    and "\<lparr>ent_type = ''number'', ent_value = PyInt 6, ent_confidence = 0.85\<rparr>
           \<in> set (scan_entities (pre @ ''6:00'' @ post))"
    and "\<lparr>ent_type = ''number'', ent_value = PyInt 0, ent_confidence = 0.85\<rparr>
           \<in> set (scan_entities (pre @ ''6:00'' @ post))"
proof -
  show "\<exists>v. \<lparr>ent_type = ''time'', ent_value = PyStr (''6:00'' @ v), ent_confidence = 0.9\<rparr>
              \<in> set (scan_entities (pre @ ''6:00'' @ post))"
    using assms by (rule six_o_clock_time)
  from scan_number_mem[OF six_o_clock_numbers(1)[OF assms]]
  show "\<lparr>ent_type = ''number'', ent_value = PyInt 6, ent_confidence = 0.85\<rparr>
           \<in> set (scan_entities (pre @ ''6:00'' @ post))"
    unfolding number_entity_def rmatch.sel decimal_six .
  from scan_number_mem[OF six_o_clock_numbers(2)[OF assms]]
  show "\<lparr>ent_type = ''number'', ent_value = PyInt 0, ent_confidence = 0.85\<rparr>
           \<in> set (scan_entities (pre @ ''6:00'' @ post))"
    unfolding number_entity_def rmatch.sel decimal_six .
qed

lemma before_six_pm: "stands_alone ''before '' '' PM''"
  by code_simp

section \<open>Digit runs and the limit of \<open>int\<close>\<close>

text \<open>With a limit, a function returns what it returns without one, or the fault of \<open>int\<close>.\<close>

lemma py_int_limit: "py_int mx s = py_int 0 s \<or> py_int mx s = Inl ValueError"
  by (simp add: py_int_def)

lemma int_group1_limit: "int_group1 mx m = int_group1 0 m \<or> int_group1 mx m = Inl ValueError"
  using py_int_limit by (simp add: int_group1_def split: option.splits)

lemma append_numbers_limit:
  "append_numbers mx acc ms = append_numbers 0 acc ms \<or> append_numbers mx acc ms = Inl ValueError"
proof (induction ms arbitrary: acc)
  case Nil
  then show ?case by simp
next
  case (Cons m ms)
  from py_int_limit[of mx "group0 m"] show ?case
  proof
    assume same: "py_int mx (group0 m) = py_int 0 (group0 m)"
    show ?thesis
    proof (cases "py_int 0 (group0 m)")
      case (Inl e)
      with same show ?thesis by simp
    next
      case (Inr n)
      with same Cons.IH[of "acc @ [number_entity n]"] show ?thesis by simp
    qed
  next
    assume "py_int mx (group0 m) = Inl ValueError"
    then show ?thesis by simp
  qed
qed

lemma extract_entities_limit:
  "extract_entities mx text = extract_entities 0 text \<or> extract_entities mx text = Inl ValueError"
proof -
  let ?acc = "append_each time_entity
      (append_each day_entity
        (append_each team_entity [] (re_finditer False team_pattern text))
        (re_finditer True days_pattern text))
      (re_finditer False time_pattern text)"
  from append_numbers_limit[of mx ?acc "re_finditer False number_pattern text"]
  show ?thesis by (auto simp: extract_entities_def Let_def)
qed

lemma first_count_limit:
  "first_count mx ps text = first_count 0 ps text \<or> first_count mx ps text = Inl ValueError"
proof (induction ps)
  case Nil
  then show ?case by simp
next
  case (Cons p ps)
  show ?case
  proof (cases "re_search False p text")
    case None
    with Cons.IH show ?thesis by simp
  next
    case (Some m)
    with int_group1_limit[of mx m] show ?thesis by auto
  qed
qed

lemma parse_capacity_limit:
  "parse_capacity_constraint mx text = parse_capacity_constraint 0 text
   \<or> parse_capacity_constraint mx text = Inl ValueError"
  using first_count_limit[of mx max_patterns "text"] first_count_limit[of mx min_patterns "text"]
  by (auto simp: parse_capacity_constraint_def split: sum.splits)

lemma parse_rest_limit:
  "parse_rest_constraint mx text = parse_rest_constraint 0 text
   \<or> parse_rest_constraint mx text = Inl ValueError"
proof -
  have d: "int_group1 mx m = int_group1 0 m \<or> int_group1 mx m = Inl ValueError" for m
    by (rule int_group1_limit)
  show ?thesis
  proof (cases "re_search False day_between_pattern text")
    case None
    note dn = this
    show ?thesis
    proof (cases "re_search False hour_between_pattern text")
      case None
      with dn show ?thesis by (simp add: parse_rest_constraint_def)
    next
      case (Some h)
      with dn d[of h] show ?thesis by (auto simp: parse_rest_constraint_def)
    qed
  next
    case (Some dm)
    note ds = this
    from d[of dm] show ?thesis
    proof
      assume "int_group1 mx dm = Inl ValueError"
      with ds show ?thesis by (simp add: parse_rest_constraint_def)
    next
      assume same: "int_group1 mx dm = int_group1 0 dm"
      show ?thesis
      proof (cases "int_group1 0 dm")
        case (Inl e)
        with same ds show ?thesis by (simp add: parse_rest_constraint_def)
      next
        case (Inr n)
        note dn = this
        show ?thesis
        proof (cases "re_search False hour_between_pattern text")
          case None
          with ds same dn show ?thesis by (simp add: parse_rest_constraint_def)
        next
          case (Some h)
          with ds same dn d[of h] show ?thesis by (auto simp: parse_rest_constraint_def)
        qed
      qed
    qed
  qed
qed

lemma parse_category_limit:
  "parse_category mx ct low r = parse_category 0 ct low r
   \<or> parse_category mx ct low r = Inl ValueError"
  using parse_capacity_limit[of mx low] parse_rest_limit[of mx low]
  by (auto simp: parse_category_def)

lemma parse_constraint_limit:
  "parse_constraint mx text = parse_constraint 0 text \<or> parse_constraint mx text = Inl ValueError"
proof -
  from extract_entities_limit[of mx "text"] show ?thesis
  proof
    assume "extract_entities mx text = Inl ValueError"
    then show ?thesis by (simp add: parse_constraint_def Let_def)
  next
    assume e: "extract_entities mx text = extract_entities 0 text"
    show ?thesis
    proof (cases "extract_entities 0 text")
      case (Inl err)
      with e show ?thesis by (simp add: parse_constraint_def Let_def)
    next
      case (Inr es)
      let ?r = "initial_result\<lparr>res_type := classify_constraint_type (lower text), entities := es\<rparr>"
      from parse_category_limit[of mx "classify_constraint_type (lower text)" "lower text" ?r]
      show ?thesis using e Inr by (auto simp: parse_constraint_def Let_def)
    qed
  qed
qed

lemma run_max_ge: "cur \<le> run_max cur s"
proof (induction s arbitrary: cur)
  case Nil
  then show ?case by simp
next
  case (Cons c cs)
  from Cons[of "Suc cur"] show ?case by simp
qed

lemma run_max_mono: "cur \<le> cur' \<Longrightarrow> run_max cur s \<le> run_max cur' s"
proof (induction s arbitrary: cur cur')
  case Nil
  then show ?case by simp
next
  case (Cons c cs)
  from Cons.IH[of "Suc cur" "Suc cur'"] Cons.prems show ?case by auto
qed

lemma run_max_digits: "list_all is_digit d \<Longrightarrow> cur + length d \<le> run_max cur (d @ y)"
proof (induction d arbitrary: cur)
  case Nil
  then show ?case by (simp add: run_max_ge)
next
  case (Cons c cs)
  from Cons.IH[of "Suc cur"] Cons.prems show ?case by simp
qed

lemma run_max_part: "list_all is_digit d \<Longrightarrow> length d \<le> run_max cur (x @ d @ y)"
proof (induction x arbitrary: cur)
  case Nil
  from run_max_digits[OF Nil, of cur y] show ?case by simp
next
  case (Cons c cs)
  from Cons.IH[OF Cons.prems, of "Suc cur"] Cons.IH[OF Cons.prems, of 0]
  show ?case by auto
qed

lemma longest_digit_run_part:
  "digits d \<Longrightarrow> text = x @ d @ y \<Longrightarrow> length d \<le> longest_digit_run text"
  by (simp add: longest_digit_run_def digits_def run_max_part)

lemma digits_not_upper: "list_all (\<lambda>c. lower_char c = c) ''0123456789''"
  by code_simp

lemma lower_char_not_digit: "list_all (\<lambda>c. \<not> is_digit (lower_char c)) (filter (\<lambda>c. \<not> is_digit c) Enum.enum)"
  by code_simp

lemma is_digit_lower: "is_digit (lower_char c) = is_digit c"
proof (cases "is_digit c")
  case True
  then have "c \<in> set ''0123456789''" by (simp add: is_digit_def)
  with digits_not_upper have "lower_char c = c" unfolding list_all_iff by blast
  with True show ?thesis by simp
next
  case False
  have "c \<in> set Enum.enum" by (simp add: enum_UNIV)
  with False have "c \<in> set (filter (\<lambda>c. \<not> is_digit c) Enum.enum)" by simp
  with lower_char_not_digit have "\<not> is_digit (lower_char c)" unfolding list_all_iff by blast
  with False show ?thesis by simp
qed

lemma run_max_lower: "run_max cur (lower s) = run_max cur s"
  by (induction s arbitrary: cur) (simp_all add: lower_def is_digit_lower)

lemma longest_digit_run_lower: "longest_digit_run (lower text) = longest_digit_run text"
  by (simp add: longest_digit_run_def run_max_lower)

lemma match_at_matches:
  "match_at ic r b a = Some m \<Longrightarrow> matches_in ic r (rev b @ a) m"
  unfolding matches_in_def using match_at_in_run by blast

lemma match_adv_at_matches:
  "match_adv_at ic r b a = Some m \<Longrightarrow> matches_in ic r (rev b @ a) m"
  unfolding matches_in_def using match_adv_at_in_run by blast

lemma matches_step: "matches_in ic r (rev (c # b) @ cs) m \<Longrightarrow> matches_in ic r (rev b @ c # cs) m"
  by simp

lemma search_from_matches:
  "search_from ic r b a = Some m \<Longrightarrow> matches_in ic r (rev b @ a) m"
proof (induction a arbitrary: b)
  case Nil
  then show ?case using match_at_matches[of ic r b "[]" m] by simp
next
  case (Cons c cs)
  show ?case
  proof (cases "match_at ic r b (c # cs)")
    case None
    with Cons.prems have "search_from ic r (c # b) cs = Some m" by simp
    then have "matches_in ic r (rev (c # b) @ cs) m" by (rule Cons.IH)
    then show ?thesis by (rule matches_step)
  next
    case (Some m')
    with Cons.prems have "m' = m" by simp
    with Some show ?thesis using match_at_matches by simp
  qed
qed

lemma finditer_from_matches:
  "m \<in> set (finditer_from ic r b a k) \<Longrightarrow> matches_in ic r (rev b @ a) m"
proof (induction a arbitrary: b k)
  case Nil
  then have "match_at ic r b [] = Some m"
    by (auto split: if_splits option.splits)
  then show ?case by (rule match_at_matches)
next
  case (Cons c cs)
  have step: "m \<in> set (finditer_from ic r (c # b) cs j) \<Longrightarrow> matches_in ic r (rev b @ c # cs) m" for j
  proof -
    assume "m \<in> set (finditer_from ic r (c # b) cs j)"
    then have "matches_in ic r (rev (c # b) @ cs) m" by (rule Cons.IH)
    then show ?thesis by (rule matches_step)
  qed
  show ?case
  proof (cases "0 < k")
    case True
    with Cons.prems have "m \<in> set (finditer_from ic r (c # b) cs (k - 1))" by simp
    then show ?thesis by (rule step)
  next
    case False
    note k0 = this
    show ?thesis
    proof (cases "match_at ic r b (c # cs)")
      case None
      with k0 Cons.prems have "m \<in> set (finditer_from ic r (c # b) cs 0)" by simp
      then show ?thesis by (rule step)
    next
      case (Some m1)
      note m1 = this
      then have mm1: "matches_in ic r (rev b @ c # cs) m1" by (rule match_at_matches)
      show ?thesis
      proof (cases "0 < length (group0 m1)")
        case True
        with k0 m1 Cons.prems
        have "m = m1 \<or> m \<in> set (finditer_from ic r (c # b) cs (length (group0 m1) - 1))"
          by simp
        then show ?thesis using mm1 step by blast
      next
        case False
        note e = this
        show ?thesis
        proof (cases "match_adv_at ic r b (c # cs)")
          case None
          with k0 m1 e Cons.prems
          have "m = m1 \<or> m \<in> set (finditer_from ic r (c # b) cs 0)" by simp
          then show ?thesis using mm1 step by blast
        next
          case (Some m2)
          then have mm2: "matches_in ic r (rev b @ c # cs) m2" by (rule match_adv_at_matches)
          from Some k0 m1 e Cons.prems
          have "m = m1 \<or> m = m2
                \<or> m \<in> set (finditer_from ic r (c # b) cs (length (group0 m2) - 1))"
            by simp
          then show ?thesis using mm1 mm2 step by blast
        qed
      qed
    qed
  qed
qed

lemma re_search_matches: "re_search ic r text = Some m \<Longrightarrow> matches_in ic r text m"
  unfolding re_search_def using search_from_matches[of ic r "[]" "text" m] by simp

lemma re_finditer_matches: "m \<in> set (re_finditer ic r text) \<Longrightarrow> matches_in ic r text m"
  unfolding re_finditer_def using finditer_from_matches[of m ic r "[]" "text" 0] by simp

text \<open>The text of a match and the text of its group are parts of the searched text.\<close>

lemma matches_in_group0:
  assumes "matches_in ic r text m"
  shows "\<exists>x y. text = x @ group0 m @ y"
proof -
  from assms obtain b a st where t: "rev b @ a = text"
    and st: "st \<in> set (rx_run ic r (b, a, None))" and m: "m = to_match a st"
    unfolding matches_in_def by blast
  obtain b' a' g' where s: "st = (b', a', g')" by (cases st)
  from rx_run_consumes[of b' a' g' ic r b a None] st s obtain u where u: "a = u @ a'" by blast
  with m s have "group0 m = u" by simp
  with t u have "text = rev b @ group0 m @ a'" by simp
  then show ?thesis by blast
qed

lemma rx_run_group_part:
  assumes "(b', a', g') \<in> set (rx_run ic r (b, a, g))"
    and "\<And>e. g = Some e \<Longrightarrow> \<exists>x y. rev b @ a = x @ e @ y"
    and "g' = Some d"
  shows "\<exists>x y. rev b @ a = x @ d @ y"
  using assms
proof (induction r arbitrary: b a g b' a' g' d)
  case (Lit s)
  from rx_run_nogrp[OF _ Lit.prems(1)] have "g' = g" by simp
  with Lit.prems show ?case by simp
next
  case (Cls k)
  from rx_run_nogrp[OF _ Cls.prems(1)] have "g' = g" by simp
  with Cls.prems show ?case by simp
next
  case (Rep k lo hi)
  from rx_run_nogrp[OF _ Rep.prems(1)] have "g' = g" by simp
  with Rep.prems show ?case by simp
next
  case WordB
  from rx_run_nogrp[OF _ WordB.prems(1)] have "g' = g" by simp
  with WordB.prems show ?case by simp
next
  case (Opt r)
  from Opt.prems(1) have "(b', a', g') \<in> set (rx_run ic r (b, a, g)) \<or> (b', a', g') = (b, a, g)"
    by auto
  then show ?case
  proof
    assume "(b', a', g') \<in> set (rx_run ic r (b, a, g))"
    from Opt.IH[OF this Opt.prems(2) Opt.prems(3)] show ?thesis .
  next
    assume "(b', a', g') = (b, a, g)"
    with Opt.prems show ?thesis by simp
  qed
next
  case (Alt r1 r2)
  from Alt.prems(1) have "(b', a', g') \<in> set (rx_run ic r1 (b, a, g))
      \<or> (b', a', g') \<in> set (rx_run ic r2 (b, a, g))"
    by auto
  then show ?case
  proof
    assume "(b', a', g') \<in> set (rx_run ic r1 (b, a, g))"
    from Alt.IH(1)[OF this Alt.prems(2) Alt.prems(3)] show ?thesis .
  next
    assume "(b', a', g') \<in> set (rx_run ic r2 (b, a, g))"
    from Alt.IH(2)[OF this Alt.prems(2) Alt.prems(3)] show ?thesis .
  qed
next
  case (Seq r1 r2)
  from Seq.prems(1) obtain st where st: "st \<in> set (rx_run ic r1 (b, a, g))"
    and fin: "(b', a', g') \<in> set (rx_run ic r2 st)"
    by auto
  obtain b1 a1 g1 where s: "st = (b1, a1, g1)" by (cases st)
  from rx_run_consumes[of b1 a1 g1 ic r1 b a g] st s
  obtain u where "a = u @ a1" "b1 = rev u @ b" by blast
  then have same: "rev b1 @ a1 = rev b @ a" by simp
  have g1: "\<exists>x y. rev b1 @ a1 = x @ e @ y" if "g1 = Some e" for e
    unfolding same using Seq.IH(1)[OF st[unfolded s] Seq.prems(2) that] .
  from Seq.IH(2)[OF fin[unfolded s] g1 Seq.prems(3)] have "\<exists>x y. rev b1 @ a1 = x @ d @ y" .
  then show ?case by (simp only: same)
next
  case (Grp r)
  from Grp.prems(1) obtain b2 a2 g2 where in2: "(b2, a2, g2) \<in> set (rx_run ic r (b, a, g))"
    and g': "g' = Some (take (length a - length a2) a)"
    by auto
  from rx_run_consumes[OF in2] obtain u where u: "a = u @ a2" by blast
  with g' Grp.prems(3) have "d = u" by simp
  with u have "rev b @ a = rev b @ d @ a2" by simp
  then show ?case by blast
qed

lemma matches_in_group1:
  assumes "matches_in ic r text m" and "group1 m = Some d"
  shows "\<exists>x y. text = x @ d @ y"
proof -
  from assms(1) obtain b a st where t: "rev b @ a = text"
    and st: "st \<in> set (rx_run ic r (b, a, None))" and m: "m = to_match a st"
    unfolding matches_in_def by blast
  obtain b' a' g' where s: "st = (b', a', g')" by (cases st)
  from m s assms(2) have g': "g' = Some d" by simp
  have "\<exists>x y. rev b @ a = x @ d @ y"
    using st[unfolded s] _ g' by (rule rx_run_group_part) simp
  then show ?thesis by (simp only: t)
qed

lemma py_int_within:
  assumes "within_limit mx text" and "digits d" and "\<exists>x y. text = x @ d @ y"
  shows "py_int mx d = Inr (decimal d)"
proof -
  from assms(3) obtain x y where "text = x @ d @ y" by blast
  with assms(2) have "length d \<le> longest_digit_run text" by (rule longest_digit_run_part)
  with assms(1) have "mx = 0 \<or> length d \<le> mx" by (auto simp: within_limit_def)
  with assms(2) show ?thesis by (auto simp: py_int_def digits_def)
qed

lemma append_numbers_within:
  "list_all (\<lambda>m. py_int mx (group0 m) = Inr (decimal (group0 m))) ms \<Longrightarrow>
     append_numbers mx acc ms = Inr (acc @ map (\<lambda>m. number_entity (decimal (group0 m))) ms)"
  by (induction ms arbitrary: acc) simp_all

lemma extract_entities_within:
  assumes "within_limit mx text"
  shows "extract_entities mx text = Inr (scan_entities text)"
proof -
  have "py_int mx (group0 m) = Inr (decimal (group0 m))"
    if m: "m \<in> set (re_finditer False number_pattern text)" for m
  proof -
    from finditer_number_digits[of "text"] m have "digits (group0 m)"
      unfolding list_all_iff by blast
    moreover from m have "\<exists>x y. text = x @ group0 m @ y"
      using re_finditer_matches matches_in_group0 by blast
    ultimately show ?thesis using assms py_int_within by blast
  qed
  then have "list_all (\<lambda>m. py_int mx (group0 m) = Inr (decimal (group0 m)))
      (re_finditer False number_pattern text)"
    unfolding list_all_iff by blast
  then show ?thesis
    by (simp add: extract_entities_def scan_entities_def append_each_map append_numbers_within)
qed

lemma within_limit_off: "within_limit 0 text"
  by (simp add: within_limit_def)

lemma within_limit_lower: "within_limit mx (lower text) = within_limit mx text"
  by (simp add: within_limit_def longest_digit_run_lower)

lemma int_group1_within:
  assumes "within_limit mx text" and "digit_group r" and "re_search ic r text = Some m"
  shows "int_group1 mx m = int_group1 0 m"
proof -
  from search_digit_group[OF assms(2,3)] obtain d where d: "group1 m = Some d" "digits d"
    by blast
  from assms(3) have "matches_in ic r text m" by (rule re_search_matches)
  then have p: "\<exists>x y. text = x @ d @ y" using d(1) by (rule matches_in_group1)
  from assms(1) d(2) p have "py_int mx d = Inr (decimal d)" by (rule py_int_within)
  moreover from within_limit_off d(2) p have "py_int 0 d = Inr (decimal d)"
    by (rule py_int_within)
  ultimately show ?thesis using d(1) by (simp add: int_group1_def)
qed

lemma first_count_within:
  "within_limit mx text \<Longrightarrow> list_all digit_group ps \<Longrightarrow>
     first_count mx ps text = first_count 0 ps text"
proof (induction ps)
  case Nil
  then show ?case by simp
next
  case (Cons p ps)
  show ?case
  proof (cases "re_search False p text")
    case None
    with Cons show ?thesis by simp
  next
    case (Some m)
    from Cons.prems have "digit_group p" by simp
    from int_group1_within[OF Cons.prems(1) this Some] Some show ?thesis by simp
  qed
qed

lemma parse_capacity_within:
  assumes "within_limit mx text"
  shows "parse_capacity_constraint mx text = parse_capacity_constraint 0 text"
proof -
  have "list_all digit_group max_patterns" and "list_all digit_group min_patterns"
    by (simp_all add: max_patterns_def min_patterns_def plus_def)
  with assms have "first_count mx max_patterns text = first_count 0 max_patterns text"
    and "first_count mx min_patterns text = first_count 0 min_patterns text"
    by (simp_all add: first_count_within)
  then show ?thesis by (simp only: parse_capacity_constraint_def)
qed

lemma parse_rest_within:
  assumes "within_limit mx text"
  shows "parse_rest_constraint mx text = parse_rest_constraint 0 text"
proof -
  have d: "digit_group day_between_pattern" and h: "digit_group hour_between_pattern"
    by (simp_all add: day_between_pattern_def hour_between_pattern_def plus_def)
  have dm: "int_group1 mx m = int_group1 0 m"
    if "re_search False day_between_pattern text = Some m" for m
    using assms d that by (rule int_group1_within)
  have hm: "int_group1 mx m = int_group1 0 m"
    if "re_search False hour_between_pattern text = Some m" for m
    using assms h that by (rule int_group1_within)
  show ?thesis
  proof (cases "re_search False day_between_pattern text")
    case None
    note dn = this
    show ?thesis
    proof (cases "re_search False hour_between_pattern text")
      case None
      with dn show ?thesis
        by (simp add: parse_rest_constraint_def split: sum.splits)
    next
      case (Some m2)
      with dn hm[OF Some] show ?thesis
        by (simp add: parse_rest_constraint_def split: sum.splits)
    qed
  next
    case (Some m1)
    note ds = this
    show ?thesis
    proof (cases "re_search False hour_between_pattern text")
      case None
      with ds dm[OF ds] show ?thesis
        by (simp add: parse_rest_constraint_def split: sum.splits)
    next
      case (Some m2)
      with ds dm[OF ds] hm[OF Some] show ?thesis
        by (simp add: parse_rest_constraint_def split: sum.splits)
    qed
  qed
qed

lemma parse_category_within:
  "within_limit mx low \<Longrightarrow> parse_category mx ct low res = parse_category 0 ct low res"
  by (simp only: parse_category_def parse_capacity_within parse_rest_within)

lemma parse_constraint_within:
  assumes "within_limit mx text"
  shows "parse_constraint mx text = parse_constraint 0 text"
proof -
  from assms have e: "extract_entities mx text = extract_entities 0 text"
    using extract_entities_within within_limit_off by simp
  from assms have "within_limit mx (lower text)" by (simp add: within_limit_lower)
  then have c: "parse_category mx ct (lower text) res = parse_category 0 ct (lower text) res"
    for ct res
    by (rule parse_category_within)
  show ?thesis by (simp only: parse_constraint_def Let_def e c cong: sum.case_cong)
qed





lemma parse_constraint_any_limit:
  "parse_constraint 0 text = Inr r \<Longrightarrow>
     parse_constraint mx text = Inr r \<or> parse_constraint mx text = Inl ValueError"
  using parse_constraint_limit[of mx "text"] by auto

lemma default_within:
  "longest_digit_run text \<le> 4300 \<Longrightarrow> within_limit default_max_str_digits text"
  by (simp add: within_limit_def default_max_str_digits_def)

section \<open>The classifier and the pipeline\<close>

lemma max_value5:
  "(max_value t [(k1, c), (k2, l), (k3, r), (k4, p)] = 0) = (t = 0 \<and> c = 0 \<and> l = 0 \<and> r = 0 \<and> p = 0)"
  by auto

lemma max_key5:
  "max_key (k0, t) [(k1, c), (k2, l), (k3, r), (k4, p)] =
     (if c \<le> t \<and> l \<le> t \<and> r \<le> t \<and> p \<le> t then k0
      else if t < c \<and> l \<le> c \<and> r \<le> c \<and> p \<le> c then k1
      else if t < l \<and> c < l \<and> r \<le> l \<and> p \<le> l then k2
      else if t < r \<and> c < r \<and> l < r \<and> p \<le> r then k3
      else k4)"
  by auto

lemma classify_in_names: "classify_constraint_type t \<in> set category_names"
  unfolding classify_constraint_type_def scores_first_def scores_others_def max_key5 category_names_def
  by simp

lemma classify_cases:
  obtains "classify_constraint_type t = ''temporal''"
    | "classify_constraint_type t = ''capacity''"
    | "classify_constraint_type t = ''location''"
    | "classify_constraint_type t = ''rest''"
    | "classify_constraint_type t = ''preference''"
    | "classify_constraint_type t = ''unknown''"
  using classify_in_names[of t] unfolding category_names_def by auto

lemma location_stub_any: "\<not> location_any (parse_location_constraint t)"
  by (simp add: location_any_def parse_location_constraint_def)

lemma preference_stub_any: "preference_any (parse_preference_constraint t)"
  by (simp add: preference_any_def)

lemma rest_any_True: "rest_any x"
  by (simp add: rest_any_def)

lemma calculate_confidence_eq:
  "calculate_confidence text r =
     (case data_populated r of
        Inl e \<Rightarrow> Inl e
      | Inr p \<Rightarrow>
          Inr (min 1 (score_sum (res_type r \<noteq> ''unknown'') (length (entities r))
                       (length (conditions r)) p)))"
  by (simp add: calculate_confidence_def score_sum_def Let_def split: sum.splits)

lemma parse_constraint_shape:
  "\<exists>r c x. parse_constraint 0 text = Inr r
     \<and> parse_capacity_constraint 0 (lower text) = Inr c
     \<and> parse_rest_constraint 0 (lower text) = Inr x \<and> between_events x
     \<and> res_type r = classify_constraint_type (lower text)
     \<and> entities r = scan_entities text
     \<and> temporal r = (if res_type r = ''temporal'' then Some (parse_temporal_constraint (lower text)) else None)
     \<and> capacity r = (if res_type r = ''capacity'' then Some c else None)
     \<and> location r = (if res_type r = ''location'' then Some (parse_location_constraint (lower text)) else None)
     \<and> rest r = (if res_type r = ''rest'' then Some x else None)
     \<and> preference r = (if res_type r = ''preference'' then Some (parse_preference_constraint (lower text)) else None)
     \<and> conditions r =
          (if res_type r = ''temporal'' then extract_temporal_conditions (lower text)
           else if res_type r = ''capacity'' then extract_capacity_conditions (lower text)
           else if res_type r = ''location'' then extract_location_conditions (lower text)
           else if res_type r = ''rest'' then extract_rest_conditions (lower text)
           else if res_type r = ''preference'' then extract_preference_conditions (lower text)
           else [])
     \<and> confidence r =
          min 1 (score_sum (res_type r \<noteq> ''unknown'') (length (entities r)) (length (conditions r))
                  (if res_type r = ''temporal'' then temporal_any (parse_temporal_constraint (lower text))
                   else if res_type r = ''capacity'' then capacity_any c
                   else res_type r = ''rest'' \<or> res_type r = ''preference''))"
proof -
  obtain c where c: "parse_capacity_constraint 0 (lower text) = Inr c"
    using parse_capacity_ok by blast
  obtain x where x: "parse_rest_constraint 0 (lower text) = Inr x" and bx: "between_events x"
    using parse_rest_ok by blast
  note defs = parse_constraint_def parse_category_def extract_entities_scan initial_result_def
    calculate_confidence_eq data_populated_def Let_def
    location_stub_any preference_stub_any rest_any_True
  show ?thesis
  proof (cases rule: classify_cases[of "lower text"])
    case 1
    then show ?thesis using c x bx by (simp add: defs)
  next
    case 2
    then show ?thesis using c x bx by (simp add: defs)
  next
    case 3
    then show ?thesis using c x bx by (simp add: defs)
  next
    case 4
    then show ?thesis using c x bx by (simp add: defs)
  next
    case 5
    then show ?thesis using c x bx by (simp add: defs)
  next
    case 6
    then show ?thesis using c x bx by (simp add: defs)
  qed
qed

lemma score_sum_bounds: "0 \<le> score_sum a n m p" "min 1 (score_sum a n m p) \<le> 1"
  by (simp_all add: score_sum_def)


lemma temporal_conditions_ok:
  "list_all condition_ok (extract_temporal_conditions t) \<and> length (extract_temporal_conditions t) \<le> 1"
  by (simp add: extract_temporal_conditions_def condition_ok_def operators_def cond_def)

lemma capacity_conditions_ok:
  "list_all condition_ok (extract_capacity_conditions t) \<and> length (extract_capacity_conditions t) \<le> 1"
  by (simp add: extract_capacity_conditions_def condition_ok_def operators_def cond_def)

lemma location_conditions_ok:
  "list_all condition_ok (extract_location_conditions t) \<and> length (extract_location_conditions t) \<le> 1"
  by (simp add: extract_location_conditions_def condition_ok_def operators_def cond_def)

lemma rest_conditions_ok:
  "list_all condition_ok (extract_rest_conditions t) \<and> length (extract_rest_conditions t) \<le> 1"
  by (simp add: extract_rest_conditions_def condition_ok_def operators_def cond_def)

lemma preference_conditions_ok:
  "list_all condition_ok (extract_preference_conditions t) \<and> length (extract_preference_conditions t) \<le> 1"
  by (simp add: extract_preference_conditions_def condition_ok_def operators_def cond_def)

lemmas conditions_ok = temporal_conditions_ok capacity_conditions_ok location_conditions_ok
  rest_conditions_ok preference_conditions_ok

lemma shape_obtain:
  obtains r c x where
    "parse_constraint 0 text = Inr r"
    "parse_capacity_constraint 0 (lower text) = Inr c"
    "parse_rest_constraint 0 (lower text) = Inr x" "between_events x"
    "res_type r = classify_constraint_type (lower text)"
    "entities r = scan_entities text"
    "temporal r = (if res_type r = ''temporal'' then Some (parse_temporal_constraint (lower text)) else None)"
    "capacity r = (if res_type r = ''capacity'' then Some c else None)"
    "location r = (if res_type r = ''location'' then Some (parse_location_constraint (lower text)) else None)"
    "rest r = (if res_type r = ''rest'' then Some x else None)"
    "preference r = (if res_type r = ''preference'' then Some (parse_preference_constraint (lower text)) else None)"
    "conditions r =
          (if res_type r = ''temporal'' then extract_temporal_conditions (lower text)
           else if res_type r = ''capacity'' then extract_capacity_conditions (lower text)
           else if res_type r = ''location'' then extract_location_conditions (lower text)
           else if res_type r = ''rest'' then extract_rest_conditions (lower text)
           else if res_type r = ''preference'' then extract_preference_conditions (lower text)
           else [])"
    "confidence r =
          min 1 (score_sum (res_type r \<noteq> ''unknown'') (length (entities r)) (length (conditions r))
                  (if res_type r = ''temporal'' then temporal_any (parse_temporal_constraint (lower text))
                   else if res_type r = ''capacity'' then capacity_any c
                   else res_type r = ''rest'' \<or> res_type r = ''preference''))"
  using parse_constraint_shape[of "text"] by blast

lemma classify_eq_pick:
  "classify_constraint_type text =
     (let t = kw_score temporal_keywords text;
          c = kw_score capacity_keywords text;
          l = kw_score location_keywords text;
          x = kw_score rest_keywords text;
          p = kw_score preference_keywords text
      in if t = 0 \<and> c = 0 \<and> l = 0 \<and> x = 0 \<and> p = 0 then ''unknown''
         else if c \<le> t \<and> l \<le> t \<and> x \<le> t \<and> p \<le> t then ''temporal''
         else if t < c \<and> l \<le> c \<and> x \<le> c \<and> p \<le> c then ''capacity''
         else if t < l \<and> c < l \<and> x \<le> l \<and> p \<le> l then ''location''
         else if t < x \<and> c < x \<and> l < x \<and> p \<le> x then ''rest''
         else ''preference'')"
  unfolding classify_constraint_type_def scores_first_def scores_others_def snd_conv
    max_value5 max_key5 Let_def
  by simp

lemma classify_unknown_iff:
  "(classify_constraint_type text = ''unknown'') =
     (kw_score temporal_keywords text = 0 \<and> kw_score capacity_keywords text = 0
      \<and> kw_score location_keywords text = 0 \<and> kw_score rest_keywords text = 0
      \<and> kw_score preference_keywords text = 0)"
  unfolding classify_eq_pick Let_def by simp

lemma classify_temporal_iff:
  "(classify_constraint_type text = ''temporal'') =
     (0 < kw_score temporal_keywords text
      \<and> kw_score capacity_keywords text \<le> kw_score temporal_keywords text
      \<and> kw_score location_keywords text \<le> kw_score temporal_keywords text
      \<and> kw_score rest_keywords text \<le> kw_score temporal_keywords text
      \<and> kw_score preference_keywords text \<le> kw_score temporal_keywords text)"
  unfolding classify_eq_pick Let_def by (simp; linarith)

lemma classify_capacity_iff:
  "(classify_constraint_type text = ''capacity'') =
     (kw_score temporal_keywords text < kw_score capacity_keywords text
      \<and> kw_score location_keywords text \<le> kw_score capacity_keywords text
      \<and> kw_score rest_keywords text \<le> kw_score capacity_keywords text
      \<and> kw_score preference_keywords text \<le> kw_score capacity_keywords text)"
  unfolding classify_eq_pick Let_def by (simp; linarith)

lemma classify_location_iff:
  "(classify_constraint_type text = ''location'') =
     (kw_score temporal_keywords text < kw_score location_keywords text
      \<and> kw_score capacity_keywords text < kw_score location_keywords text
      \<and> kw_score rest_keywords text \<le> kw_score location_keywords text
      \<and> kw_score preference_keywords text \<le> kw_score location_keywords text)"
  unfolding classify_eq_pick Let_def by (simp; linarith)

lemma classify_rest_iff:
  "(classify_constraint_type text = ''rest'') =
     (kw_score temporal_keywords text < kw_score rest_keywords text
      \<and> kw_score capacity_keywords text < kw_score rest_keywords text
      \<and> kw_score location_keywords text < kw_score rest_keywords text
      \<and> kw_score preference_keywords text \<le> kw_score rest_keywords text)"
  unfolding classify_eq_pick Let_def by (simp; linarith)

lemma classify_preference_iff:
  "(classify_constraint_type text = ''preference'') =
     (kw_score temporal_keywords text < kw_score preference_keywords text
      \<and> kw_score capacity_keywords text < kw_score preference_keywords text
      \<and> kw_score location_keywords text < kw_score preference_keywords text
      \<and> kw_score rest_keywords text < kw_score preference_keywords text)"
  unfolding classify_eq_pick Let_def by (simp; linarith)

lemmas classify_iffs = classify_unknown_iff classify_temporal_iff classify_capacity_iff
  classify_location_iff classify_rest_iff classify_preference_iff

lemma unknown_text: "classify_constraint_type (lower ''asdkjasd qweoiqwe'') = ''unknown''"
  by code_simp

section \<open>Classification\<close>

text \<open>
  C2. For every text the classifier returns one of the six category values. With the five
  keyword counts of the text it is given (the pipeline gives it the lower-cased input, so
  the counts are case-insensitive substring counts), it returns \<open>unknown\<close> exactly when
  all five counts are zero, and otherwise the first category, in the order temporal,
  capacity, location, rest, preference, whose count is maximal: a category wins exactly
  when its count is positive, strictly greater than the count of every category before it
  and at least the count of every category after it. The pipeline returns that type, and
  when it is \<open>unknown\<close> the five category slots keep their initial value, the empty
  dictionary. The result is that of
  the pipeline without a limit on \<open>int\<close>; with a limit the pipeline returns the same
  result or the fault of \<open>int\<close>.
\<close>

theorem classifier_first_maximal:
  "classify_constraint_type t \<in> set category_names
   \<and> (let ts = kw_score temporal_keywords t;
           cs = kw_score capacity_keywords t;
           ls = kw_score location_keywords t;
           rs = kw_score rest_keywords t;
           ps = kw_score preference_keywords t
       in (classify_constraint_type t = ''unknown'') = (ts = 0 \<and> cs = 0 \<and> ls = 0 \<and> rs = 0 \<and> ps = 0)
        \<and> (classify_constraint_type t = ''temporal'') = (0 < ts \<and> cs \<le> ts \<and> ls \<le> ts \<and> rs \<le> ts \<and> ps \<le> ts)
        \<and> (classify_constraint_type t = ''capacity'') = (ts < cs \<and> ls \<le> cs \<and> rs \<le> cs \<and> ps \<le> cs)
        \<and> (classify_constraint_type t = ''location'') = (ts < ls \<and> cs < ls \<and> rs \<le> ls \<and> ps \<le> ls)
        \<and> (classify_constraint_type t = ''rest'') = (ts < rs \<and> cs < rs \<and> ls < rs \<and> ps \<le> rs)
        \<and> (classify_constraint_type t = ''preference'') = (ts < ps \<and> cs < ps \<and> ls < ps \<and> rs < ps))
   \<and> (\<exists>r. parse_constraint 0 text = Inr r
          \<and> (parse_constraint max_digits text = Inr r \<or> parse_constraint max_digits text = Inl ValueError)
          \<and> res_type r = classify_constraint_type (lower text)
          \<and> (res_type r = ''unknown'' \<longrightarrow>
                temporal r = None \<and> capacity r = None \<and> location r = None
                \<and> preference r = None \<and> rest r = None))"
proof -
  obtain r c x where r: "parse_constraint 0 text = Inr r"
    "res_type r = classify_constraint_type (lower text)"
    "temporal r = (if res_type r = ''temporal'' then Some (parse_temporal_constraint (lower text)) else None)"
    "capacity r = (if res_type r = ''capacity'' then Some c else None)"
    "location r = (if res_type r = ''location'' then Some (parse_location_constraint (lower text)) else None)"
    "rest r = (if res_type r = ''rest'' then Some x else None)"
    "preference r = (if res_type r = ''preference'' then Some (parse_preference_constraint (lower text)) else None)"
    by (rule shape_obtain[of "text"])
  from r(1) have "parse_constraint max_digits text = Inr r
      \<or> parse_constraint max_digits text = Inl ValueError"
    by (rule parse_constraint_any_limit)
  moreover from r have "res_type r = ''unknown'' \<longrightarrow>
                temporal r = None \<and> capacity r = None \<and> location r = None
                \<and> preference r = None \<and> rest r = None"
    by auto
  ultimately have pipeline: "\<exists>r. parse_constraint 0 text = Inr r
          \<and> (parse_constraint max_digits text = Inr r \<or> parse_constraint max_digits text = Inl ValueError)
          \<and> res_type r = classify_constraint_type (lower text)
          \<and> (res_type r = ''unknown'' \<longrightarrow>
                temporal r = None \<and> capacity r = None \<and> location r = None
                \<and> preference r = None \<and> rest r = None)"
    using r(1,2) by blast
  have names: "classify_constraint_type t \<in> set category_names"
    by (rule classify_in_names)
  show ?thesis
    unfolding Let_def
    by (intro conjI names pipeline classify_iffs)
qed

theorem classifier_first_maximal_witness:
  "\<exists>r. parse_constraint 0 ''asdkjasd qweoiqwe'' = Inr r \<and> res_type r = ''unknown''
       \<and> temporal r = None \<and> capacity r = None \<and> location r = None
       \<and> preference r = None \<and> rest r = None"
  using classifier_first_maximal[of "lower ''asdkjasd qweoiqwe''" "''asdkjasd qweoiqwe''"] unknown_text
  by auto

lemma confidence_obtain:
  obtains r c x where
    "parse_constraint 0 text = Inr r"
    "res_type r = classify_constraint_type (lower text)"
    "rest r = (if res_type r = ''rest'' then Some x else None)" "between_events x"
    "preference r = (if res_type r = ''preference'' then Some (parse_preference_constraint (lower text)) else None)"
    "slot_populated r =
       (if res_type r = ''temporal'' then temporal_any (parse_temporal_constraint (lower text))
        else if res_type r = ''capacity'' then capacity_any c
        else res_type r = ''rest'' \<or> res_type r = ''preference'')"
    "confidence r =
       min 1 (score_sum (res_type r \<noteq> ''unknown'') (length (entities r)) (length (conditions r))
               (slot_populated r))"
proof -
  obtain r c x where r: "parse_constraint 0 text = Inr r"
    "res_type r = classify_constraint_type (lower text)"
    "temporal r = (if res_type r = ''temporal'' then Some (parse_temporal_constraint (lower text)) else None)"
    "capacity r = (if res_type r = ''capacity'' then Some c else None)"
    "location r = (if res_type r = ''location'' then Some (parse_location_constraint (lower text)) else None)"
    "rest r = (if res_type r = ''rest'' then Some x else None)" "between_events x"
    "preference r = (if res_type r = ''preference'' then Some (parse_preference_constraint (lower text)) else None)"
    "confidence r =
          min 1 (score_sum (res_type r \<noteq> ''unknown'') (length (entities r)) (length (conditions r))
                  (if res_type r = ''temporal'' then temporal_any (parse_temporal_constraint (lower text))
                   else if res_type r = ''capacity'' then capacity_any c
                   else res_type r = ''rest'' \<or> res_type r = ''preference''))"
    by (rule shape_obtain[of "text"])
  have "slot_populated r =
       (if res_type r = ''temporal'' then temporal_any (parse_temporal_constraint (lower text))
        else if res_type r = ''capacity'' then capacity_any c
        else res_type r = ''rest'' \<or> res_type r = ''preference'')"
    unfolding slot_populated_def r(3-6) r(8)
    by (simp add: location_stub_any preference_stub_any rest_any_True)
  with r show ?thesis using that by simp
qed

section \<open>Confidence\<close>

text \<open>
  C3. For every text the pipeline returns a result whose confidence is the minimum of 1
  and the sum of four terms: 0.3 when the type is not \<open>unknown\<close>; the minimum of 0.3 and
  0.1 times the number of entities; the minimum of 0.2 and 0.1 times the number of
  conditions; and 0.2 when the category record of the matched type has a field that is
  neither \<open>None\<close> nor an empty sequence. So the confidence lies in \<open>[0, 1]\<close> for every
  text, the empty string and strings of symbols included. The score is a real number
  here. The result is that of
  the pipeline without a limit on \<open>int\<close>; with a limit the pipeline returns the same
  result or the fault of \<open>int\<close>.
\<close>

theorem confidence_is_clamped_sum:
  "\<exists>r. parse_constraint 0 text = Inr r
      \<and> (parse_constraint max_digits text = Inr r \<or> parse_constraint max_digits text = Inl ValueError)
      \<and> confidence r =
          min 1 (score_sum (res_type r \<noteq> ''unknown'') (length (entities r))
                   (length (conditions r)) (slot_populated r))
      \<and> 0 \<le> confidence r \<and> confidence r \<le> 1"
proof -
  obtain r c x where r: "parse_constraint 0 text = Inr r"
    and cf: "confidence r =
       min 1 (score_sum (res_type r \<noteq> ''unknown'') (length (entities r)) (length (conditions r))
               (slot_populated r))"
    by (rule confidence_obtain[of "text"])
  from r have "parse_constraint max_digits text = Inr r
      \<or> parse_constraint max_digits text = Inl ValueError"
    by (rule parse_constraint_any_limit)
  moreover have "0 \<le> confidence r" "confidence r \<le> 1"
    unfolding cf using score_sum_bounds by simp_all
  ultimately show ?thesis using r cf by blast
qed

lemma score_sum_half: "1 / 2 \<le> min 1 (score_sum True n m True)"
  by (simp add: score_sum_def)

text \<open>
  C10. For every text classified as \<open>rest\<close> or as \<open>preference\<close> the confidence is at
  least 0.5. The rest record always has \<open>between_events\<close> true and the preference
  record always has weight 0.5, so the matched record has a field that is neither
  \<open>None\<close> nor empty and the term 0.2 applies, with nothing extracted from the text,
  on top of the term 0.3 of the classification. The result is that of
  the pipeline without a limit on \<open>int\<close>; with a limit the pipeline returns the same
  result or the fault of \<open>int\<close>.
\<close>

theorem rest_and_preference_at_least_half:
  "\<exists>r. parse_constraint 0 text = Inr r
      \<and> (parse_constraint max_digits text = Inr r \<or> parse_constraint max_digits text = Inl ValueError)
      \<and> (res_type r = ''rest'' \<longrightarrow>
           (\<exists>x. rest r = Some x \<and> between_events x) \<and> slot_populated r \<and> 0.5 \<le> confidence r)
      \<and> (res_type r = ''preference'' \<longrightarrow>
           (\<exists>p. preference r = Some p \<and> weight p = 0.5) \<and> slot_populated r \<and> 0.5 \<le> confidence r)"
proof -
  obtain r c x where r: "parse_constraint 0 text = Inr r"
    "res_type r = classify_constraint_type (lower text)"
    "rest r = (if res_type r = ''rest'' then Some x else None)" "between_events x"
    "preference r = (if res_type r = ''preference'' then Some (parse_preference_constraint (lower text)) else None)"
    "slot_populated r =
       (if res_type r = ''temporal'' then temporal_any (parse_temporal_constraint (lower text))
        else if res_type r = ''capacity'' then capacity_any c
        else res_type r = ''rest'' \<or> res_type r = ''preference'')"
    "confidence r =
       min 1 (score_sum (res_type r \<noteq> ''unknown'') (length (entities r)) (length (conditions r))
               (slot_populated r))"
    by (rule confidence_obtain[of "text"])
  have rest_case: "(\<exists>x. rest r = Some x \<and> between_events x) \<and> slot_populated r \<and> 0.5 \<le> confidence r"
    if ty: "res_type r = ''rest''"
  proof -
    from ty r(3,4) have a: "\<exists>x. rest r = Some x \<and> between_events x" by simp
    from ty r(6) have b: "slot_populated r" by simp
    from ty b r(7) have "confidence r = min 1 (score_sum True (length (entities r)) (length (conditions r)) True)"
      by simp
    with score_sum_half have "0.5 \<le> confidence r" by simp
    with a b show ?thesis by blast
  qed
  have pref_case: "(\<exists>p. preference r = Some p \<and> weight p = 0.5) \<and> slot_populated r \<and> 0.5 \<le> confidence r"
    if ty: "res_type r = ''preference''"
  proof -
    from ty r(5) have a: "\<exists>p. preference r = Some p \<and> weight p = 0.5"
      by (simp add: parse_preference_constraint_def)
    from ty r(6) have b: "slot_populated r" by simp
    from ty b r(7) have "confidence r = min 1 (score_sum True (length (entities r)) (length (conditions r)) True)"
      by simp
    with score_sum_half have "0.5 \<le> confidence r" by simp
    with a b show ?thesis by blast
  qed
  from r(1) have "parse_constraint max_digits text = Inr r
      \<or> parse_constraint max_digits text = Inl ValueError"
    by (rule parse_constraint_any_limit)
  with r(1) rest_case pref_case show ?thesis by blast
qed

lemma rest_text:
  "parse_constraint 0 ''rest'' =
     Inr \<lparr>res_type = ''rest'', entities = [], conditions = [], confidence = 0.5,
          temporal = None, capacity = None, location = None, preference = None,
          rest = Some \<lparr>min_hours = None, min_days = None, between_events = True\<rparr>\<rparr>"
  by code_simp

lemma prefer_text:
  "parse_constraint 0 ''I prefer it'' =
     Inr \<lparr>res_type = ''preference'', entities = [],
          conditions = [\<lparr>operator = ''prefer'', cond_value = ''specified_option''\<rparr>],
          confidence = 0.6,
          temporal = None, capacity = None, location = None,
          preference = Some \<lparr>preferred_times = [], preferred_days = [], weight = 0.5\<rparr>,
          rest = None\<rparr>"
  by code_simp

lemma rest_text_type: "\<exists>r. parse_constraint 0 ''rest'' = Inr r \<and> res_type r = ''rest''"
  by (simp add: rest_text)

lemma prefer_text_type:
  "\<exists>r. parse_constraint 0 ''I prefer it'' = Inr r \<and> res_type r = ''preference''"
  by (simp add: prefer_text)

theorem rest_and_preference_at_least_half_witness:
  "(\<exists>r. parse_constraint 0 ''rest'' = Inr r \<and> res_type r = ''rest'' \<and> 0.5 \<le> confidence r)
   \<and> (\<exists>r. parse_constraint 0 ''I prefer it'' = Inr r \<and> res_type r = ''preference''
          \<and> 0.5 \<le> confidence r)"
  using rest_and_preference_at_least_half[of "''rest''"]
        rest_and_preference_at_least_half[of "''I prefer it''"]
        rest_text_type prefer_text_type
  by auto

section \<open>Category slots\<close>

text \<open>
  C5. For every text, each of the five category slots of the result (temporal, capacity,
  location, preference, rest) differs from its initial value, the empty dictionary, exactly
  when it is the slot of the returned type. So exactly one slot is filled, and none when
  the type is \<open>unknown\<close>. The result is that of
  the pipeline without a limit on \<open>int\<close>; with a limit the pipeline returns the same
  result or the fault of \<open>int\<close>.
\<close>

theorem one_slot_matches_type:
  "\<exists>r. parse_constraint 0 text = Inr r
      \<and> (parse_constraint max_digits text = Inr r \<or> parse_constraint max_digits text = Inl ValueError)
      \<and> (temporal r \<noteq> None) = (res_type r = ''temporal'')
      \<and> (capacity r \<noteq> None) = (res_type r = ''capacity'')
      \<and> (location r \<noteq> None) = (res_type r = ''location'')
      \<and> (preference r \<noteq> None) = (res_type r = ''preference'')
      \<and> (rest r \<noteq> None) = (res_type r = ''rest'')
      \<and> length (filter (\<lambda>filled. filled)
            [temporal r \<noteq> None, capacity r \<noteq> None, location r \<noteq> None,
             preference r \<noteq> None, rest r \<noteq> None])
          = (if res_type r = ''unknown'' then 0 else 1)"
proof -
  obtain r c x where r: "parse_constraint 0 text = Inr r"
    "res_type r = classify_constraint_type (lower text)"
    "temporal r = (if res_type r = ''temporal'' then Some (parse_temporal_constraint (lower text)) else None)"
    "capacity r = (if res_type r = ''capacity'' then Some c else None)"
    "location r = (if res_type r = ''location'' then Some (parse_location_constraint (lower text)) else None)"
    "rest r = (if res_type r = ''rest'' then Some x else None)"
    "preference r = (if res_type r = ''preference'' then Some (parse_preference_constraint (lower text)) else None)"
    by (rule shape_obtain[of "text"])
  have slots: "(temporal r \<noteq> None) = (res_type r = ''temporal'')"
    "(capacity r \<noteq> None) = (res_type r = ''capacity'')"
    "(location r \<noteq> None) = (res_type r = ''location'')"
    "(preference r \<noteq> None) = (res_type r = ''preference'')"
    "(rest r \<noteq> None) = (res_type r = ''rest'')"
    using r(3-7) by simp_all
  have "length (filter (\<lambda>filled. filled)
            [temporal r \<noteq> None, capacity r \<noteq> None, location r \<noteq> None,
             preference r \<noteq> None, rest r \<noteq> None])
          = (if res_type r = ''unknown'' then 0 else 1)"
    unfolding slots
    by (cases rule: classify_cases[of "lower text"]) (simp_all add: r(2))
  moreover from r(1) have "parse_constraint max_digits text = Inr r
      \<or> parse_constraint max_digits text = Inl ValueError"
    by (rule parse_constraint_any_limit)
  ultimately show ?thesis using r(1) slots by blast
qed

section \<open>Substrings\<close>

lemma startswith_iff: "startswith t k = (\<exists>s. t = k @ s)"
  by (induction t k rule: startswith.induct) auto

lemma str_in_iff: "str_in k t = (\<exists>p s. t = p @ k @ s)"
proof (induction t)
  case Nil
  then show ?case by auto
next
  case (Cons c cs)
  show ?case
  proof
    assume "str_in k (c # cs)"
    then consider "startswith (c # cs) k" | "str_in k cs" by auto
    then show "\<exists>p s. c # cs = p @ k @ s"
    proof cases
      case 1
      then obtain s where "c # cs = k @ s" unfolding startswith_iff ..
      then have "c # cs = [] @ k @ s" by simp
      then show ?thesis by blast
    next
      case 2
      with Cons.IH obtain p s where "cs = p @ k @ s" by blast
      then have "c # cs = (c # p) @ k @ s" by simp
      then show ?thesis by blast
    qed
  next
    assume "\<exists>p s. c # cs = p @ k @ s"
    then obtain p s where ps: "c # cs = p @ k @ s" by blast
    show "str_in k (c # cs)"
    proof (cases p)
      case Nil
      with ps have "startswith (c # cs) k" unfolding startswith_iff by auto
      then show ?thesis by simp
    next
      case (Cons c' p')
      with ps have "cs = p' @ k @ s" by simp
      with Cons.IH have "str_in k cs" by blast
      then show ?thesis by simp
    qed
  qed
qed

lemma str_in_part: "str_in (u @ k @ v) t \<Longrightarrow> str_in k t"
proof -
  assume "str_in (u @ k @ v) t"
  then obtain p s where "t = p @ (u @ k @ v) @ s" unfolding str_in_iff by blast
  then have "t = (p @ u) @ k @ (v @ s)" by simp
  then show ?thesis unfolding str_in_iff by blast
qed

lemma kw_score_pos: "k \<in> set keywords \<Longrightarrow> str_in k t \<Longrightarrow> 1 \<le> kw_score keywords t"
proof -
  assume "k \<in> set keywords" "str_in k t"
  then have "k \<in> set (filter (\<lambda>keyword. str_in keyword t) keywords)" by simp
  then have "0 < length (filter (\<lambda>keyword. str_in keyword t) keywords)"
    by (rule length_pos_if_in_set)
  then show ?thesis unfolding kw_score_def by linarith
qed

text \<open>
  C9. Keyword matching is substring containment: a text that contains "team" or "game"
  contains "am". For every input whose lower-cased form contains "am", the temporal count
  is at least 1, the classifier does not return \<open>unknown\<close>, and neither does the
  pipeline. The result is that of
  the pipeline without a limit on \<open>int\<close>; with a limit the pipeline returns the same
  result or the fault of \<open>int\<close>.
\<close>

theorem am_is_temporal:
  "(str_in ''team'' s \<or> str_in ''game'' s \<longrightarrow> str_in ''am'' s)
   \<and> (str_in ''am'' (lower text) \<longrightarrow>
        1 \<le> kw_score temporal_keywords (lower text)
        \<and> classify_constraint_type (lower text) \<noteq> ''unknown''
        \<and> (\<exists>r. parse_constraint 0 text = Inr r
               \<and> (parse_constraint max_digits text = Inr r \<or> parse_constraint max_digits text = Inl ValueError)
               \<and> res_type r \<noteq> ''unknown''))"
proof -
  have team: "str_in ''team'' s \<Longrightarrow> str_in ''am'' s"
    using str_in_part[of "''te''" "''am''" "[]" s] by simp
  have game: "str_in ''game'' s \<Longrightarrow> str_in ''am'' s"
    using str_in_part[of "''g''" "''am''" "''e''" s] by simp
  have main: "1 \<le> kw_score temporal_keywords (lower text)
        \<and> classify_constraint_type (lower text) \<noteq> ''unknown''
        \<and> (\<exists>r. parse_constraint 0 text = Inr r
               \<and> (parse_constraint max_digits text = Inr r \<or> parse_constraint max_digits text = Inl ValueError)
               \<and> res_type r \<noteq> ''unknown'')"
    if am: "str_in ''am'' (lower text)"
  proof -
    have "''am'' \<in> set temporal_keywords" by (simp add: temporal_keywords_def)
    from kw_score_pos[OF this am] have sc: "1 \<le> kw_score temporal_keywords (lower text)" .
    then have cl: "classify_constraint_type (lower text) \<noteq> ''unknown''"
      unfolding classify_unknown_iff by simp
    obtain r c x where r: "parse_constraint 0 text = Inr r"
      "res_type r = classify_constraint_type (lower text)"
      by (rule shape_obtain[of "text"])
    from r(1) have "parse_constraint max_digits text = Inr r
        \<or> parse_constraint max_digits text = Inl ValueError"
      by (rule parse_constraint_any_limit)
    moreover from r(2) cl have "res_type r \<noteq> ''unknown''" by simp
    ultimately have "\<exists>r. parse_constraint 0 text = Inr r
               \<and> (parse_constraint max_digits text = Inr r \<or> parse_constraint max_digits text = Inl ValueError)
               \<and> res_type r \<noteq> ''unknown''"
      using r(1) by blast
    with sc cl show ?thesis by blast
  qed
  from team game main show ?thesis by blast
qed

lemma team_lower: "lower ''Team'' = ''team''"
  by code_simp

lemma team_has_am: "str_in ''am'' ''team''"
  by code_simp

theorem am_is_temporal_witness:
  "str_in ''am'' (lower ''Team'')
   \<and> 1 \<le> kw_score temporal_keywords (lower ''Team'')
   \<and> classify_constraint_type (lower ''Team'') \<noteq> ''unknown''
   \<and> (\<exists>r. parse_constraint 0 ''Team'' = Inr r \<and> res_type r \<noteq> ''unknown'')"
  using am_is_temporal[of "''team''" "''Team''"] team_has_am unfolding team_lower by blast

section \<open>Conditions\<close>

text \<open>
  C7. For every text the result has at most one condition: its conditions are the list of
  the condition extractor of its type, and the list of each of the five extractors has at
  most one element. In every extractor only the first rule whose cue is present fires, and
  without a cue the list is empty. For a temporal text "cannot" or "not" gives
  \<open>not_equals\<close> whatever else is present, then "must" or "only" gives \<open>equals\<close>, then
  "before" gives \<open>less_than\<close>, then "after" gives \<open>greater_than\<close>; for a capacity text
  "no more than" or "maximum" gives \<open>less_than_or_equal\<close>, then "at least" or "minimum"
  gives \<open>greater_than_or_equal\<close>; for a location text "must" with "home" gives
  \<open>equals\<close>, then "cannot" gives \<open>not_equals\<close>; for a rest text "at least" or
  "minimum" gives \<open>greater_than_or_equal\<close>; for a preference text "prefer" or "like"
  gives \<open>prefer\<close>. The result is that of the pipeline without a limit on \<open>int\<close>; with
  a limit the pipeline returns the same result or the fault of \<open>int\<close>.
\<close>

theorem at_most_one_condition:
  "(\<exists>r. parse_constraint 0 text = Inr r
        \<and> (parse_constraint max_digits text = Inr r \<or> parse_constraint max_digits text = Inl ValueError)
        \<and> conditions r =
            (if res_type r = ''temporal'' then extract_temporal_conditions (lower text)
             else if res_type r = ''capacity'' then extract_capacity_conditions (lower text)
             else if res_type r = ''location'' then extract_location_conditions (lower text)
             else if res_type r = ''rest'' then extract_rest_conditions (lower text)
             else if res_type r = ''preference'' then extract_preference_conditions (lower text)
             else [])
        \<and> length (conditions r) \<le> 1)
   \<and> length (extract_temporal_conditions t) \<le> 1
   \<and> length (extract_capacity_conditions t) \<le> 1
   \<and> length (extract_location_conditions t) \<le> 1
   \<and> length (extract_rest_conditions t) \<le> 1
   \<and> length (extract_preference_conditions t) \<le> 1
   \<and> (str_in ''cannot'' t \<or> str_in ''not'' t \<longrightarrow>
        extract_temporal_conditions t = [cond ''not_equals'' ''specified_time''])
   \<and> (\<not> (str_in ''cannot'' t \<or> str_in ''not'' t) \<and> (str_in ''must'' t \<or> str_in ''only'' t) \<longrightarrow>
        extract_temporal_conditions t = [cond ''equals'' ''specified_time''])
   \<and> (\<not> (str_in ''cannot'' t \<or> str_in ''not'' t) \<and> \<not> (str_in ''must'' t \<or> str_in ''only'' t)
        \<and> str_in ''before'' t \<longrightarrow>
        extract_temporal_conditions t = [cond ''less_than'' ''specified_time''])
   \<and> (\<not> (str_in ''cannot'' t \<or> str_in ''not'' t) \<and> \<not> (str_in ''must'' t \<or> str_in ''only'' t)
        \<and> \<not> str_in ''before'' t \<and> str_in ''after'' t \<longrightarrow>
        extract_temporal_conditions t = [cond ''greater_than'' ''specified_time''])
   \<and> (\<not> (str_in ''cannot'' t \<or> str_in ''not'' t) \<and> \<not> (str_in ''must'' t \<or> str_in ''only'' t)
        \<and> \<not> str_in ''before'' t \<and> \<not> str_in ''after'' t \<longrightarrow>
        extract_temporal_conditions t = [])
   \<and> (str_in ''no more than'' t \<or> str_in ''maximum'' t \<longrightarrow>
        extract_capacity_conditions t = [cond ''less_than_or_equal'' ''max_count''])
   \<and> (\<not> (str_in ''no more than'' t \<or> str_in ''maximum'' t)
        \<and> (str_in ''at least'' t \<or> str_in ''minimum'' t) \<longrightarrow>
        extract_capacity_conditions t = [cond ''greater_than_or_equal'' ''min_count''])
   \<and> (\<not> (str_in ''no more than'' t \<or> str_in ''maximum'' t)
        \<and> \<not> (str_in ''at least'' t \<or> str_in ''minimum'' t) \<longrightarrow>
        extract_capacity_conditions t = [])
   \<and> (str_in ''must'' t \<and> str_in ''home'' t \<longrightarrow>
        extract_location_conditions t = [cond ''equals'' ''home_venue''])
   \<and> (\<not> (str_in ''must'' t \<and> str_in ''home'' t) \<and> str_in ''cannot'' t \<longrightarrow>
        extract_location_conditions t = [cond ''not_equals'' ''specified_venue''])
   \<and> (\<not> (str_in ''must'' t \<and> str_in ''home'' t) \<and> \<not> str_in ''cannot'' t \<longrightarrow>
        extract_location_conditions t = [])
   \<and> (str_in ''at least'' t \<or> str_in ''minimum'' t \<longrightarrow>
        extract_rest_conditions t = [cond ''greater_than_or_equal'' ''min_rest_period''])
   \<and> (\<not> (str_in ''at least'' t \<or> str_in ''minimum'' t) \<longrightarrow>
        extract_rest_conditions t = [])
   \<and> (str_in ''prefer'' t \<or> str_in ''like'' t \<longrightarrow>
        extract_preference_conditions t = [cond ''prefer'' ''specified_option''])
   \<and> (\<not> (str_in ''prefer'' t \<or> str_in ''like'' t) \<longrightarrow>
        extract_preference_conditions t = [])"
proof -
  obtain r c x where r: "parse_constraint 0 text = Inr r"
    and co: "conditions r =
          (if res_type r = ''temporal'' then extract_temporal_conditions (lower text)
           else if res_type r = ''capacity'' then extract_capacity_conditions (lower text)
           else if res_type r = ''location'' then extract_location_conditions (lower text)
           else if res_type r = ''rest'' then extract_rest_conditions (lower text)
           else if res_type r = ''preference'' then extract_preference_conditions (lower text)
           else [])"
    by (rule shape_obtain[of "text"])
  have le: "length (conditions r) \<le> 1" unfolding co using conditions_ok by simp
  from r have lm: "parse_constraint max_digits text = Inr r
      \<or> parse_constraint max_digits text = Inl ValueError"
    by (rule parse_constraint_any_limit)
  have pipeline: "\<exists>r. parse_constraint 0 text = Inr r
        \<and> (parse_constraint max_digits text = Inr r \<or> parse_constraint max_digits text = Inl ValueError)
        \<and> conditions r =
            (if res_type r = ''temporal'' then extract_temporal_conditions (lower text)
             else if res_type r = ''capacity'' then extract_capacity_conditions (lower text)
             else if res_type r = ''location'' then extract_location_conditions (lower text)
             else if res_type r = ''rest'' then extract_rest_conditions (lower text)
             else if res_type r = ''preference'' then extract_preference_conditions (lower text)
             else [])
        \<and> length (conditions r) \<le> 1"
    by (rule exI[of _ r]) (intro conjI r lm co le)
  have temporal_rules:
    "str_in ''cannot'' t \<or> str_in ''not'' t \<longrightarrow>
        extract_temporal_conditions t = [cond ''not_equals'' ''specified_time'']"
    "\<not> (str_in ''cannot'' t \<or> str_in ''not'' t) \<and> (str_in ''must'' t \<or> str_in ''only'' t) \<longrightarrow>
        extract_temporal_conditions t = [cond ''equals'' ''specified_time'']"
    "\<not> (str_in ''cannot'' t \<or> str_in ''not'' t) \<and> \<not> (str_in ''must'' t \<or> str_in ''only'' t)
        \<and> str_in ''before'' t \<longrightarrow>
        extract_temporal_conditions t = [cond ''less_than'' ''specified_time'']"
    "\<not> (str_in ''cannot'' t \<or> str_in ''not'' t) \<and> \<not> (str_in ''must'' t \<or> str_in ''only'' t)
        \<and> \<not> str_in ''before'' t \<and> str_in ''after'' t \<longrightarrow>
        extract_temporal_conditions t = [cond ''greater_than'' ''specified_time'']"
    "\<not> (str_in ''cannot'' t \<or> str_in ''not'' t) \<and> \<not> (str_in ''must'' t \<or> str_in ''only'' t)
        \<and> \<not> str_in ''before'' t \<and> \<not> str_in ''after'' t \<longrightarrow>
        extract_temporal_conditions t = []"
    by (simp_all add: extract_temporal_conditions_def)
  have capacity_rules:
    "str_in ''no more than'' t \<or> str_in ''maximum'' t \<longrightarrow>
        extract_capacity_conditions t = [cond ''less_than_or_equal'' ''max_count'']"
    "\<not> (str_in ''no more than'' t \<or> str_in ''maximum'' t)
        \<and> (str_in ''at least'' t \<or> str_in ''minimum'' t) \<longrightarrow>
        extract_capacity_conditions t = [cond ''greater_than_or_equal'' ''min_count'']"
    "\<not> (str_in ''no more than'' t \<or> str_in ''maximum'' t)
        \<and> \<not> (str_in ''at least'' t \<or> str_in ''minimum'' t) \<longrightarrow>
        extract_capacity_conditions t = []"
    by (simp_all add: extract_capacity_conditions_def)
  have location_rules:
    "str_in ''must'' t \<and> str_in ''home'' t \<longrightarrow>
        extract_location_conditions t = [cond ''equals'' ''home_venue'']"
    "\<not> (str_in ''must'' t \<and> str_in ''home'' t) \<and> str_in ''cannot'' t \<longrightarrow>
        extract_location_conditions t = [cond ''not_equals'' ''specified_venue'']"
    "\<not> (str_in ''must'' t \<and> str_in ''home'' t) \<and> \<not> str_in ''cannot'' t \<longrightarrow>
        extract_location_conditions t = []"
    by (simp_all add: extract_location_conditions_def)
  have rest_rules:
    "str_in ''at least'' t \<or> str_in ''minimum'' t \<longrightarrow>
        extract_rest_conditions t = [cond ''greater_than_or_equal'' ''min_rest_period'']"
    "\<not> (str_in ''at least'' t \<or> str_in ''minimum'' t) \<longrightarrow>
        extract_rest_conditions t = []"
    by (simp_all add: extract_rest_conditions_def)
  have preference_rules:
    "str_in ''prefer'' t \<or> str_in ''like'' t \<longrightarrow>
        extract_preference_conditions t = [cond ''prefer'' ''specified_option'']"
    "\<not> (str_in ''prefer'' t \<or> str_in ''like'' t) \<longrightarrow>
        extract_preference_conditions t = []"
    by (simp_all add: extract_preference_conditions_def)
  have lens: "length (extract_temporal_conditions t) \<le> 1"
    "length (extract_capacity_conditions t) \<le> 1"
    "length (extract_location_conditions t) \<le> 1"
    "length (extract_rest_conditions t) \<le> 1"
    "length (extract_preference_conditions t) \<le> 1"
    using conditions_ok by simp_all
  show ?thesis
    by (intro conjI pipeline lens temporal_rules capacity_rules location_rules
        rest_rules preference_rules)
qed

lemma cannot_before_cues:
  "str_in ''cannot'' ''team a cannot play before noon'' \<and> str_in ''before'' ''team a cannot play before noon''"
  by code_simp

lemma at_least_cue: "str_in ''at least'' ''at least 2 days of rest''"
  by code_simp

lemma prefer_cue: "str_in ''prefer'' ''we prefer mornings''"
  by code_simp

lemma no_cue:
  "\<not> (str_in ''cannot'' ''game'' \<or> str_in ''not'' ''game'')
   \<and> \<not> (str_in ''must'' ''game'' \<or> str_in ''only'' ''game'')
   \<and> \<not> str_in ''before'' ''game'' \<and> \<not> str_in ''after'' ''game''
   \<and> \<not> (str_in ''no more than'' ''game'' \<or> str_in ''maximum'' ''game'')
   \<and> \<not> (str_in ''at least'' ''game'' \<or> str_in ''minimum'' ''game'')
   \<and> \<not> (str_in ''must'' ''game'' \<and> str_in ''home'' ''game'')
   \<and> \<not> (str_in ''prefer'' ''game'' \<or> str_in ''like'' ''game'')"
  by code_simp

theorem at_most_one_condition_witness:
  "str_in ''cannot'' ''team a cannot play before noon''
   \<and> str_in ''before'' ''team a cannot play before noon''
   \<and> extract_temporal_conditions ''team a cannot play before noon'' = [cond ''not_equals'' ''specified_time'']
   \<and> length (extract_temporal_conditions ''team a cannot play before noon'') \<le> 1
   \<and> str_in ''at least'' ''at least 2 days of rest''
   \<and> extract_rest_conditions ''at least 2 days of rest'' =
        [cond ''greater_than_or_equal'' ''min_rest_period'']
   \<and> str_in ''prefer'' ''we prefer mornings''
   \<and> extract_preference_conditions ''we prefer mornings'' = [cond ''prefer'' ''specified_option'']
   \<and> extract_temporal_conditions ''game'' = []
   \<and> extract_capacity_conditions ''game'' = []
   \<and> extract_location_conditions ''game'' = []
   \<and> extract_rest_conditions ''game'' = []
   \<and> extract_preference_conditions ''game'' = []"
proof -
  note a = at_most_one_condition[of "''team a cannot play before noon''" 0 "''team a cannot play before noon''"]
  note b = at_most_one_condition[of "''at least 2 days of rest''" 0 "''at least 2 days of rest''"]
  note c = at_most_one_condition[of "''we prefer mornings''" 0 "''we prefer mornings''"]
  note d = at_most_one_condition[of "''game''" 0 "''game''"]
  from a have a1: "str_in ''cannot'' ''team a cannot play before noon''
        \<or> str_in ''not'' ''team a cannot play before noon'' \<longrightarrow>
      extract_temporal_conditions ''team a cannot play before noon''
        = [cond ''not_equals'' ''specified_time'']"
    by (elim conjE)
  from a have a2: "length (extract_temporal_conditions ''team a cannot play before noon'') \<le> 1"
    by (elim conjE)
  from b have b1: "str_in ''at least'' ''at least 2 days of rest''
        \<or> str_in ''minimum'' ''at least 2 days of rest'' \<longrightarrow>
      extract_rest_conditions ''at least 2 days of rest''
        = [cond ''greater_than_or_equal'' ''min_rest_period'']"
    by (elim conjE)
  from c have c1: "str_in ''prefer'' ''we prefer mornings''
        \<or> str_in ''like'' ''we prefer mornings'' \<longrightarrow>
      extract_preference_conditions ''we prefer mornings'' = [cond ''prefer'' ''specified_option'']"
    by (elim conjE)
  from d have d1: "\<not> (str_in ''cannot'' ''game'' \<or> str_in ''not'' ''game'')
        \<and> \<not> (str_in ''must'' ''game'' \<or> str_in ''only'' ''game'')
        \<and> \<not> str_in ''before'' ''game'' \<and> \<not> str_in ''after'' ''game'' \<longrightarrow>
      extract_temporal_conditions ''game'' = []"
    by (elim conjE)
  from d have d2: "\<not> (str_in ''no more than'' ''game'' \<or> str_in ''maximum'' ''game'')
        \<and> \<not> (str_in ''at least'' ''game'' \<or> str_in ''minimum'' ''game'') \<longrightarrow>
      extract_capacity_conditions ''game'' = []"
    by (elim conjE)
  from d have d3: "\<not> (str_in ''must'' ''game'' \<and> str_in ''home'' ''game'')
        \<and> \<not> str_in ''cannot'' ''game'' \<longrightarrow>
      extract_location_conditions ''game'' = []"
    by (elim conjE)
  from d have d4: "\<not> (str_in ''at least'' ''game'' \<or> str_in ''minimum'' ''game'') \<longrightarrow>
      extract_rest_conditions ''game'' = []"
    by (elim conjE)
  from d have d5: "\<not> (str_in ''prefer'' ''game'' \<or> str_in ''like'' ''game'') \<longrightarrow>
      extract_preference_conditions ''game'' = []"
    by (elim conjE)
  note cues = cannot_before_cues at_least_cue prefer_cue no_cue
  from cannot_before_cues have q: "str_in ''cannot'' ''team a cannot play before noon''"
    "str_in ''before'' ''team a cannot play before noon''"
    by blast+
  from a1 q(1) have r1: "extract_temporal_conditions ''team a cannot play before noon''
        = [cond ''not_equals'' ''specified_time'']"
    by (rule mp[OF _ disjI1])
  from b1 at_least_cue have r2: "extract_rest_conditions ''at least 2 days of rest''
        = [cond ''greater_than_or_equal'' ''min_rest_period'']"
    by (rule mp[OF _ disjI1])
  from c1 prefer_cue have r3: "extract_preference_conditions ''we prefer mornings''
        = [cond ''prefer'' ''specified_option'']"
    by (rule mp[OF _ disjI1])
  from no_cue have k: "\<not> (str_in ''cannot'' ''game'' \<or> str_in ''not'' ''game'')"
    "\<not> (str_in ''must'' ''game'' \<or> str_in ''only'' ''game'')"
    "\<not> str_in ''before'' ''game''" "\<not> str_in ''after'' ''game''"
    "\<not> (str_in ''no more than'' ''game'' \<or> str_in ''maximum'' ''game'')"
    "\<not> (str_in ''at least'' ''game'' \<or> str_in ''minimum'' ''game'')"
    "\<not> (str_in ''must'' ''game'' \<and> str_in ''home'' ''game'')"
    "\<not> (str_in ''prefer'' ''game'' \<or> str_in ''like'' ''game'')"
    by blast+
  from k(1) have k9: "\<not> str_in ''cannot'' ''game''" by (rule contrapos_nn) (rule disjI1)
  have r4: "extract_temporal_conditions ''game'' = []"
    by (rule mp[OF d1]) (intro conjI k)
  have r5: "extract_capacity_conditions ''game'' = []"
    by (rule mp[OF d2]) (intro conjI k)
  have r6: "extract_location_conditions ''game'' = []"
    by (rule mp[OF d3]) (intro conjI k k9)
  have r7: "extract_rest_conditions ''game'' = []"
    by (rule mp[OF d4]) (intro conjI k)
  have r8: "extract_preference_conditions ''game'' = []"
    by (rule mp[OF d5]) (intro conjI k)
  show ?thesis
    by (intro conjI q r1 a2 at_least_cue r2 prefer_cue r3 r4 r5 r6 r7 r8)
qed

section \<open>Totality\<close>






section \<open>Scenario 1\<close>

text \<open>
  C4. For the input "Team A cannot play before 6:00 PM on Fridays" the pipeline returns,
  without a fault, the type \<open>temporal\<close>; the entities include the day of the week
  "Friday" with confidence 0.95 and the time "6:00 PM" with confidence 0.9 (besides the
  teams "Team A" and "Fridays" and the numbers 6 and 0); the temporal record has
  \<open>before_time\<close> "6:00 pm"; the conditions are exactly the one condition
  \<open>not_equals\<close> / \<open>specified_time\<close>. The lower-cased text contains both "cannot" and
  "before", and the rule of "cannot" comes first. The result is the same without a limit
  on \<open>int\<close> and with the default limit.
\<close>

theorem scenario_team_a_friday:
  "parse_constraint 0 ''Team A cannot play before 6:00 PM on Fridays'' =
     Inr \<lparr>res_type = ''temporal'',
          entities =
            [\<lparr>ent_type = ''team'', ent_value = PyStr ''Team A'', ent_confidence = 0.8\<rparr>,
             \<lparr>ent_type = ''team'', ent_value = PyStr ''Fridays'', ent_confidence = 0.8\<rparr>,
             \<lparr>ent_type = ''day_of_week'', ent_value = PyStr ''Friday'', ent_confidence = 0.95\<rparr>,
             \<lparr>ent_type = ''time'', ent_value = PyStr ''6:00 PM'', ent_confidence = 0.9\<rparr>,
             \<lparr>ent_type = ''number'', ent_value = PyInt 6, ent_confidence = 0.85\<rparr>,
             \<lparr>ent_type = ''number'', ent_value = PyInt 0, ent_confidence = 0.85\<rparr>],
          conditions = [\<lparr>operator = ''not_equals'', cond_value = ''specified_time''\<rparr>],
          confidence = 0.9,
          temporal =
            Some \<lparr>days_of_week = [''Friday''], excluded_dates = [], time_ranges = [],
                  before_time = Some ''6:00 pm'', after_time = None\<rparr>,
          capacity = None, location = None, preference = None, rest = None\<rparr>
   \<and> str_in ''cannot'' (lower ''Team A cannot play before 6:00 PM on Fridays'')
   \<and> str_in ''before'' (lower ''Team A cannot play before 6:00 PM on Fridays'')
   \<and> parse_constraint default_max_str_digits ''Team A cannot play before 6:00 PM on Fridays'' = parse_constraint 0 ''Team A cannot play before 6:00 PM on Fridays''"
proof -
  have "longest_digit_run ''Team A cannot play before 6:00 PM on Fridays'' = 2" by code_simp
  then have "within_limit default_max_str_digits ''Team A cannot play before 6:00 PM on Fridays''"
    by (simp add: default_within)
  then have lim: "parse_constraint default_max_str_digits ''Team A cannot play before 6:00 PM on Fridays'' = parse_constraint 0 ''Team A cannot play before 6:00 PM on Fridays''"
    by (rule parse_constraint_within)
  show ?thesis by (intro conjI lim) code_simp+
qed

section \<open>Scenario 3\<close>

lemma two_days_run:
  "longest_digit_run ''Teams need at least 2 days between matches'' = 1"
  "longest_digit_run (lower ''Teams need at least 2 days between matches'') = 1"
  by code_simp+

text \<open>
  C1 as stated: for the input "Teams need at least 2 days between matches" the pipeline
  returns the type \<open>rest\<close>, a rest record with \<open>min_days\<close> 2 and exactly the condition
  \<open>greater_than_or_equal\<close> / \<open>min_rest_period\<close>. The pipeline does not: it returns
  the type \<open>temporal\<close>, without a limit on \<open>int\<close> and with the default limit.
\<close>

theorem scenario_two_days_counterexample:
  "\<not> (case parse_constraint 0 ''Teams need at least 2 days between matches'' of
         Inl e \<Rightarrow> False
       | Inr r \<Rightarrow>
           res_type r = ''rest''
           \<and> (case rest r of None \<Rightarrow> False | Some x \<Rightarrow> min_days x = Some 2)
           \<and> conditions r = [\<lparr>operator = ''greater_than_or_equal'', cond_value = ''min_rest_period''\<rparr>])
   \<and> parse_constraint default_max_str_digits ''Teams need at least 2 days between matches'' = parse_constraint 0 ''Teams need at least 2 days between matches''"
proof -
  have "within_limit default_max_str_digits ''Teams need at least 2 days between matches''"
    by (simp add: default_within two_days_run)
  then have lim: "parse_constraint default_max_str_digits ''Teams need at least 2 days between matches'' = parse_constraint 0 ''Teams need at least 2 days between matches''"
    by (rule parse_constraint_within)
  show ?thesis by (intro conjI lim) code_simp
qed

text \<open>
  C1, amended. For the input "Teams need at least 2 days between matches" the temporal
  keywords "am" (inside "teams") and "day" (inside "days"), the capacity keywords
  "at least" and "matches" and the rest keywords "between" and "days between" count 2
  each, and the tie goes to the first category: the pipeline returns the type
  \<open>temporal\<close>, with a temporal record that has no day and no time, with no condition
  and with the rest slot left empty. Applied to the lower-cased text itself, the rest
  parser gives \<open>min_days\<close> 2 and the rest condition extractor gives exactly the condition
  \<open>greater_than_or_equal\<close> / \<open>min_rest_period\<close>. The results are the same without a
  limit on \<open>int\<close> and with the default limit.
\<close>

theorem scenario_two_days:
  "parse_constraint 0 ''Teams need at least 2 days between matches'' =
     Inr \<lparr>res_type = ''temporal'',
          entities =
            [\<lparr>ent_type = ''team'', ent_value = PyStr ''Teams'', ent_confidence = 0.8\<rparr>,
             \<lparr>ent_type = ''number'', ent_value = PyInt 2, ent_confidence = 0.85\<rparr>],
          conditions = [],
          confidence = 0.5,
          temporal =
            Some \<lparr>days_of_week = [], excluded_dates = [], time_ranges = [],
                  before_time = None, after_time = None\<rparr>,
          capacity = None, location = None, preference = None, rest = None\<rparr>
   \<and> kw_score temporal_keywords (lower ''Teams need at least 2 days between matches'') = 2
   \<and> kw_score capacity_keywords (lower ''Teams need at least 2 days between matches'') = 2
   \<and> kw_score location_keywords (lower ''Teams need at least 2 days between matches'') = 0
   \<and> kw_score rest_keywords (lower ''Teams need at least 2 days between matches'') = 2
   \<and> kw_score preference_keywords (lower ''Teams need at least 2 days between matches'') = 0
   \<and> str_in ''am'' (lower ''Teams need at least 2 days between matches'')
   \<and> str_in ''day'' (lower ''Teams need at least 2 days between matches'')
   \<and> parse_rest_constraint 0 (lower ''Teams need at least 2 days between matches'') =
        Inr \<lparr>min_hours = None, min_days = Some 2, between_events = True\<rparr>
   \<and> extract_rest_conditions (lower ''Teams need at least 2 days between matches'') =
        [\<lparr>operator = ''greater_than_or_equal'', cond_value = ''min_rest_period''\<rparr>]
   \<and> parse_constraint default_max_str_digits ''Teams need at least 2 days between matches'' = parse_constraint 0 ''Teams need at least 2 days between matches''
   \<and> parse_rest_constraint default_max_str_digits (lower ''Teams need at least 2 days between matches'') = parse_rest_constraint 0 (lower ''Teams need at least 2 days between matches'')"
proof -
  have "within_limit default_max_str_digits ''Teams need at least 2 days between matches''"
    by (simp add: default_within two_days_run)
  then have lim: "parse_constraint default_max_str_digits ''Teams need at least 2 days between matches'' = parse_constraint 0 ''Teams need at least 2 days between matches''"
    by (rule parse_constraint_within)
  have "within_limit default_max_str_digits (lower ''Teams need at least 2 days between matches'')"
    by (simp add: default_within two_days_run)
  then have lim_rest: "parse_rest_constraint default_max_str_digits (lower ''Teams need at least 2 days between matches'')
      = parse_rest_constraint 0 (lower ''Teams need at least 2 days between matches'')"
    by (rule parse_rest_within)
  show ?thesis by (intro conjI lim lim_rest) code_simp+
qed

section \<open>Entities\<close>

text \<open>
  C6 as stated: the entities are the five scans one after the other, and a text that
  contains "6:00" gives the numbers of the digit runs "6" and "00" besides the time. Not
  every text that contains "6:00" does: in "x6:00" the "6" follows a word character, so
  neither the time pattern nor the number pattern matches there, and the one entity is
  the number 0; in "6:00pm" the time is "6:00pm" and the run "00" is followed by a word
  character, so the one number is 6.
\<close>

theorem entities_are_five_scans_counterexample:
  "str_in ''6:00'' ''x6:00''
   \<and> extract_entities default_max_str_digits ''x6:00'' =
       Inr [\<lparr>ent_type = ''number'', ent_value = PyInt 0, ent_confidence = 0.85\<rparr>]
   \<and> str_in ''6:00'' ''6:00pm''
   \<and> extract_entities default_max_str_digits ''6:00pm'' =
       Inr [\<lparr>ent_type = ''time'', ent_value = PyStr ''6:00pm'', ent_confidence = 0.9\<rparr>,
            \<lparr>ent_type = ''number'', ent_value = PyInt 6, ent_confidence = 0.85\<rparr>]"
proof -
  have run: "longest_digit_run ''x6:00'' = 2" "longest_digit_run ''6:00pm'' = 2"
    by code_simp+
  have x: "scan_entities ''x6:00'' =
       [\<lparr>ent_type = ''number'', ent_value = PyInt 0, ent_confidence = 0.85\<rparr>]"
    by code_simp
  have pm: "scan_entities ''6:00pm'' =
       [\<lparr>ent_type = ''time'', ent_value = PyStr ''6:00pm'', ent_confidence = 0.9\<rparr>,
        \<lparr>ent_type = ''number'', ent_value = PyInt 6, ent_confidence = 0.85\<rparr>]"
    by code_simp
  have "within_limit default_max_str_digits ''x6:00''"
    by (simp add: default_within run)
  then have ex: "extract_entities default_max_str_digits ''x6:00'' = Inr (scan_entities ''x6:00'')"
    by (rule extract_entities_within)
  have "within_limit default_max_str_digits ''6:00pm''"
    by (simp add: default_within run)
  then have epm: "extract_entities default_max_str_digits ''6:00pm'' = Inr (scan_entities ''6:00pm'')"
    by (rule extract_entities_within)
  have s: "str_in ''6:00'' ''x6:00''" "str_in ''6:00'' ''6:00pm''" by code_simp+
  show ?thesis unfolding ex epm x pm by (intro conjI s refl)
qed

lemma six_o_clock:
  "scan_entities ''6:00'' =
     [\<lparr>ent_type = ''time'', ent_value = PyStr ''6:00'', ent_confidence = 0.9\<rparr>,
      \<lparr>ent_type = ''number'', ent_value = PyInt 6, ent_confidence = 0.85\<rparr>,
      \<lparr>ent_type = ''number'', ent_value = PyInt 0, ent_confidence = 0.85\<rparr>]"
  by code_simp

text \<open>
  C6, amended. For every text the entity extractor returns, when \<open>int\<close> has no limit,
  the matches of the team pattern, then those of the day pattern, of the time pattern, of
  the number pattern and of the venue pattern: five scans of the text, none of which
  looks at the classification or at the matches of another scan; with a limit it returns
  the same list or the fault of \<open>int\<close>. The entities of the pipeline's result are this
  list. The number scan is not reduced by the time scan: when "6:00" stands alone in a
  text, with no word character right before it or right after it, the entities contain a
  time that begins with "6:00" and also the numbers 6 and 0 of the digit runs "6" and
  "00"; the text "6:00" gives exactly the time "6:00" and the numbers 6 and 0.
\<close>

theorem entities_are_five_scans:
  "extract_entities 0 text = Inr (scan_entities text)
   \<and> (extract_entities max_digits text = Inr (scan_entities text)
        \<or> extract_entities max_digits text = Inl ValueError)
   \<and> (\<exists>r. parse_constraint 0 text = Inr r
          \<and> (parse_constraint max_digits text = Inr r \<or> parse_constraint max_digits text = Inl ValueError)
          \<and> entities r = scan_entities text)
   \<and> (stands_alone pre post \<longrightarrow>
        (\<exists>v. \<lparr>ent_type = ''time'', ent_value = PyStr (''6:00'' @ v), ent_confidence = 0.9\<rparr>
              \<in> set (scan_entities (pre @ ''6:00'' @ post)))
        \<and> \<lparr>ent_type = ''number'', ent_value = PyInt 6, ent_confidence = 0.85\<rparr>
              \<in> set (scan_entities (pre @ ''6:00'' @ post))
        \<and> \<lparr>ent_type = ''number'', ent_value = PyInt 0, ent_confidence = 0.85\<rparr>
              \<in> set (scan_entities (pre @ ''6:00'' @ post)))
   \<and> scan_entities ''6:00'' =
       [\<lparr>ent_type = ''time'', ent_value = PyStr ''6:00'', ent_confidence = 0.9\<rparr>,
        \<lparr>ent_type = ''number'', ent_value = PyInt 6, ent_confidence = 0.85\<rparr>,
        \<lparr>ent_type = ''number'', ent_value = PyInt 0, ent_confidence = 0.85\<rparr>]"
proof -
  obtain r c x where r: "parse_constraint 0 text = Inr r" "entities r = scan_entities text"
    by (rule shape_obtain[of "text"])
  from r(1) have "parse_constraint max_digits text = Inr r
      \<or> parse_constraint max_digits text = Inl ValueError"
    by (rule parse_constraint_any_limit)
  with r have pipeline: "\<exists>r. parse_constraint 0 text = Inr r
          \<and> (parse_constraint max_digits text = Inr r \<or> parse_constraint max_digits text = Inl ValueError)
          \<and> entities r = scan_entities text"
    by blast
  have scan: "extract_entities 0 text = Inr (scan_entities text)"
    by (rule extract_entities_scan)
  from extract_entities_limit[of max_digits "text"] scan
  have lim: "extract_entities max_digits text = Inr (scan_entities text)
        \<or> extract_entities max_digits text = Inl ValueError"
    by simp
  have alone: "stands_alone pre post \<longrightarrow>
        (\<exists>v. \<lparr>ent_type = ''time'', ent_value = PyStr (''6:00'' @ v), ent_confidence = 0.9\<rparr>
              \<in> set (scan_entities (pre @ ''6:00'' @ post)))
        \<and> \<lparr>ent_type = ''number'', ent_value = PyInt 6, ent_confidence = 0.85\<rparr>
              \<in> set (scan_entities (pre @ ''6:00'' @ post))
        \<and> \<lparr>ent_type = ''number'', ent_value = PyInt 0, ent_confidence = 0.85\<rparr>
              \<in> set (scan_entities (pre @ ''6:00'' @ post))"
  proof
    assume a: "stands_alone pre post"
    show "(\<exists>v. \<lparr>ent_type = ''time'', ent_value = PyStr (''6:00'' @ v), ent_confidence = 0.9\<rparr>
              \<in> set (scan_entities (pre @ ''6:00'' @ post)))
        \<and> \<lparr>ent_type = ''number'', ent_value = PyInt 6, ent_confidence = 0.85\<rparr>
              \<in> set (scan_entities (pre @ ''6:00'' @ post))
        \<and> \<lparr>ent_type = ''number'', ent_value = PyInt 0, ent_confidence = 0.85\<rparr>
              \<in> set (scan_entities (pre @ ''6:00'' @ post))"
      by (intro conjI six_o_clock_entities[OF a])
  qed
  show ?thesis
    by (intro conjI scan lim pipeline alone six_o_clock)
qed

theorem entities_are_five_scans_witness:
  "stands_alone ''before '' '' PM''
   \<and> (\<exists>v. \<lparr>ent_type = ''time'', ent_value = PyStr (''6:00'' @ v), ent_confidence = 0.9\<rparr>
          \<in> set (scan_entities (''before '' @ ''6:00'' @ '' PM'')))
   \<and> \<lparr>ent_type = ''number'', ent_value = PyInt 6, ent_confidence = 0.85\<rparr>
          \<in> set (scan_entities (''before '' @ ''6:00'' @ '' PM''))
   \<and> \<lparr>ent_type = ''number'', ent_value = PyInt 0, ent_confidence = 0.85\<rparr>
          \<in> set (scan_entities (''before '' @ ''6:00'' @ '' PM''))"
proof -
  note a = before_six_pm
  from entities_are_five_scans[of "[]" 0 "''before ''" "'' PM''"]
  have "stands_alone ''before '' '' PM'' \<longrightarrow>
        (\<exists>v. \<lparr>ent_type = ''time'', ent_value = PyStr (''6:00'' @ v), ent_confidence = 0.9\<rparr>
              \<in> set (scan_entities (''before '' @ ''6:00'' @ '' PM'')))
        \<and> \<lparr>ent_type = ''number'', ent_value = PyInt 6, ent_confidence = 0.85\<rparr>
              \<in> set (scan_entities (''before '' @ ''6:00'' @ '' PM''))
        \<and> \<lparr>ent_type = ''number'', ent_value = PyInt 0, ent_confidence = 0.85\<rparr>
              \<in> set (scan_entities (''before '' @ ''6:00'' @ '' PM''))"
    by (elim conjE)
  from mp[OF this a] show ?thesis by (rule conjI[OF a])
qed

end
